theory Spec2Isabelle
  imports Complex_Main
begin

section \<open>The intent execution lifecycle engine of the mock server\<close>

text \<open>
  This theory embeds \<^verbatim>\<open>packages/mock-server/src/state.ts\<close> (class \<^verbatim>\<open>MockState\<close>) and
  the two HTTP handlers that read it (\<^verbatim>\<open>GET /api/v1/intents\<close> and
  \<^verbatim>\<open>GET /api/v1/intents/:id/watch\<close>).

  Conventions of the embedding:
  \<^item> a JavaScript \<^verbatim>\<open>Map\<close> is an association list in insertion order with distinct keys;
    \<^verbatim>\<open>Map.set\<close> overwrites in place or appends at the end;
  \<^item> a JavaScript \<^verbatim>\<open>Set\<close> of callbacks is a duplicate-free list in insertion order; a
    callback is named by a number, standing for the identity of the function object;
  \<^item> in-place mutation of a stored object is an update of the entry under its key;
  \<^item> \<^verbatim>\<open>Date.now()\<close> is a parameter \<open>now\<close> of each synchronous call (the few readings
    within one call are taken to return the same millisecond), \<^verbatim>\<open>Math.random()\<close> is a
    parameter \<open>r\<close> of each driver step, \<^verbatim>\<open>crypto.randomUUID()\<close> is a parameter \<open>fresh\<close>;
  \<^item> a callback acts on a world \<open>'w\<close> outside the store and either returns or throws.
\<close>

subsection \<open>Data model\<close>

type_synonym UUID = string
type_synonym Timestamp = int

datatype ExecutionState =
  PENDING | VALIDATING | PLANNING | SIMULATING | SUBMITTING | CONFIRMING | VERIFYING
  | COMPLETED | FAILED | CANCELLED | RETRYING

text \<open>The string that an \<^verbatim>\<open>ExecutionState\<close> is at run time.\<close>

fun stateName :: "ExecutionState \<Rightarrow> string" where
  "stateName PENDING = ''PENDING''"
| "stateName VALIDATING = ''VALIDATING''"
| "stateName PLANNING = ''PLANNING''"
| "stateName SIMULATING = ''SIMULATING''"
| "stateName SUBMITTING = ''SUBMITTING''"
| "stateName CONFIRMING = ''CONFIRMING''"
| "stateName VERIFYING = ''VERIFYING''"
| "stateName COMPLETED = ''COMPLETED''"
| "stateName FAILED = ''FAILED''"
| "stateName CANCELLED = ''CANCELLED''"
| "stateName RETRYING = ''RETRYING''"

record Asset =
  symbol :: string
  decimals :: nat

text \<open>The caller's payload. The engine reads only \<open>id\<close> and \<open>output\<close> (here \<open>intent_id\<close> and \<open>output'\<close>); the other fields
  of \<^verbatim>\<open>Intent\<close> are carried in \<open>action\<close>.\<close>

record Intent =
  intent_id :: "UUID option"
  action :: string
  output' :: Asset

record Event =
  stage :: string
  type :: string
  message :: string
  timestamp :: Timestamp

record AssetAmount =
  asset :: Asset
  amount :: string

record Outcome =
  success :: bool
  actualOutput :: "AssetAmount option"
  actualFees :: string
  actualSlippageBps :: int
  transactionId :: "string option"

record StoredIntent =
  id' :: UUID
  intent :: Intent
  state :: ExecutionState
  events :: "Event list"
  createdAt :: Timestamp
  completedAt :: "Timestamp option"
  outcome :: "Outcome option"

datatype AgentStatus =
  A_CREATED | A_STARTING | A_RUNNING | A_STOPPING | A_STOPPED | A_FAILED

text \<open>Of \<^verbatim>\<open>StoredAgent\<close> only the fields that \<^verbatim>\<open>kill\<close> and \<^verbatim>\<open>getQueueStatus\<close> touch.\<close>

record StoredAgent =
  agent_id :: string
  status :: AgentStatus
  stoppedAt :: "Timestamp option"

type_synonym Callback = nat

text \<open>The object handed to the watchers: \<^verbatim>\<open>{intentId, state, event, timestamp}\<close>.
  \<open>n_event\<close> is \<^verbatim>\<open>events[events.length - 1]\<close>, which is \<^verbatim>\<open>undefined\<close> on an empty log.\<close>

record Notification =
  n_intentId :: UUID
  n_state :: ExecutionState
  n_event :: "Event option"
  n_timestamp :: Timestamp

text \<open>The fields \<^verbatim>\<open>nextFailure\<close> and \<^verbatim>\<open>latencyMs\<close> belong to the authentication
  middleware and are read by nothing below; they are left out.\<close>

record MockState =
  intents :: "(UUID \<times> StoredIntent) list"
  agents :: "(string \<times> StoredAgent) list"
  intentWatchers :: "(UUID \<times> Callback list) list"
  paused :: bool

subsection \<open>Maps, sets and arrays of JavaScript\<close>

fun map_set :: "'k \<Rightarrow> 'v \<Rightarrow> ('k \<times> 'v) list \<Rightarrow> ('k \<times> 'v) list" where
  "map_set k v [] = [(k, v)]"
| "map_set k v ((k', v') # m) =
     (if k' = k then (k, v) # m else (k', v') # map_set k v m)"

definition map_get :: "('k \<times> 'v) list \<Rightarrow> 'k \<Rightarrow> 'v option" where
  "map_get m k = map_of m k"

definition map_values :: "('k \<times> 'v) list \<Rightarrow> 'v list" where
  "map_values m = map snd m"

definition set_add :: "'a \<Rightarrow> 'a list \<Rightarrow> 'a list" where
  "set_add x xs = (if x \<in> set xs then xs else xs @ [x])"

definition set_delete :: "'a \<Rightarrow> 'a list \<Rightarrow> 'a list" where
  "set_delete x xs = filter (\<lambda>y. y \<noteq> x) xs"

text \<open>\<^verbatim>\<open>xs[xs.length - 1]\<close>\<close>

definition last_elem :: "'a list \<Rightarrow> 'a option" where
  "last_elem xs = (if xs = [] then None else Some (last xs))"

text \<open>A call either returns a value or throws; in both cases the world is as the call
  left it.\<close>

datatype ('a, 'w) completion = Returned 'a 'w | Threw 'w

subsection \<open>Subscription registry\<close>

definition watchIntent :: "UUID \<Rightarrow> Callback \<Rightarrow> MockState \<Rightarrow> MockState" where
  "watchIntent i callback ms =
     (let ws = (case map_get (intentWatchers ms) i of
                  None \<Rightarrow> map_set i [] (intentWatchers ms)
                | Some _ \<Rightarrow> intentWatchers ms)
      in ms\<lparr>intentWatchers :=
              map_set i (set_add callback (the (map_get ws i))) ws\<rparr>)"

text \<open>The closure that \<^verbatim>\<open>watchIntent\<close> returns.\<close>

definition unsubscribe :: "UUID \<Rightarrow> Callback \<Rightarrow> MockState \<Rightarrow> MockState" where
  "unsubscribe i callback ms =
     (case map_get (intentWatchers ms) i of
        None \<Rightarrow> ms
      | Some s \<Rightarrow> ms\<lparr>intentWatchers := map_set i (set_delete callback s) (intentWatchers ms)\<rparr>)"

text \<open>\<^verbatim>\<open>Set.prototype.forEach\<close> over callbacks that do not touch the set: each is called
  in insertion order; an exception leaves the loop at once.\<close>

fun forEach :: "('c \<Rightarrow> 'w \<Rightarrow> (unit, 'w) completion) \<Rightarrow> 'c list \<Rightarrow> 'w \<Rightarrow> (unit, 'w) completion" where
  "forEach f [] w = Returned () w"
| "forEach f (c # cs) w =
     (case f c w of Returned _ w' \<Rightarrow> forEach f cs w' | Threw w' \<Rightarrow> Threw w')"

definition notifyWatchers ::
  "(Callback \<Rightarrow> Notification \<Rightarrow> 'w \<Rightarrow> (unit, 'w) completion) \<Rightarrow>
   MockState \<Rightarrow> UUID \<Rightarrow> Notification \<Rightarrow> 'w \<Rightarrow> (unit, 'w) completion" where
  "notifyWatchers run ms i event w =
     (case map_get (intentWatchers ms) i of
        None \<Rightarrow> Returned () w
      | Some cbs \<Rightarrow> forEach (\<lambda>cb. run cb event) cbs w)"

subsection \<open>Intents\<close>

definition createIntent :: "Intent \<Rightarrow> UUID \<Rightarrow> Timestamp \<Rightarrow> MockState \<Rightarrow> MockState \<times> StoredIntent" where
  "createIntent i fresh now ms =
     (let new_id = (case intent_id i of None \<Rightarrow> fresh | Some x \<Rightarrow> x);
          stored = \<lparr>id' = new_id,
                    intent = i\<lparr>intent_id := Some new_id\<rparr>,
                    state = PENDING,
                    events = [\<lparr>stage = ''SUBMISSION'', type = ''STARTED'',
                               message = ''Intent received'', timestamp = now\<rparr>],
                    createdAt = now,
                    completedAt = None,
                    outcome = None\<rparr>
      in (ms\<lparr>intents := map_set new_id stored (intents ms)\<rparr>, stored))"

definition getIntent :: "MockState \<Rightarrow> UUID \<Rightarrow> StoredIntent option" where
  "getIntent ms i = map_get (intents ms) i"

definition cancelIntent ::
  "(Callback \<Rightarrow> Notification \<Rightarrow> 'w \<Rightarrow> (unit, 'w) completion) \<Rightarrow>
   UUID \<Rightarrow> Timestamp \<Rightarrow> MockState \<Rightarrow> 'w \<Rightarrow> MockState \<times> (StoredIntent option, 'w) completion" where
  "cancelIntent run i now ms w =
     (case map_get (intents ms) i of
        None \<Rightarrow> (ms, Returned None w)
      | Some rec \<Rightarrow>
          if state rec = COMPLETED \<or> state rec = FAILED then (ms, Returned (Some rec) w)
          else
            let rec' = rec\<lparr>state := CANCELLED,
                           completedAt := Some now,
                           events := events rec @
                             [\<lparr>stage = ''SUBMISSION'', type = ''CANCELLED'',
                               message = ''Intent cancelled by user'', timestamp = now\<rparr>]\<rparr>;
                ms' = ms\<lparr>intents := map_set i rec' (intents ms)\<rparr>
            in (case notifyWatchers run ms' i
                       \<lparr>n_intentId = i, n_state = CANCELLED,
                        n_event = last_elem (events rec'), n_timestamp = now\<rparr> w of
                  Returned _ w' \<Rightarrow> (ms', Returned (Some rec') w')
                | Threw w' \<Rightarrow> (ms', Threw w')))"


subsection \<open>The lifecycle driver\<close>

record Stage =
  s_state :: ExecutionState
  s_message :: string
  delay :: int

definition stages :: "Stage list" where
  "stages =
     [\<lparr>s_state = VALIDATING, s_message = ''Validating intent'', delay = 200\<rparr>,
      \<lparr>s_state = PLANNING, s_message = ''Building execution plan'', delay = 300\<rparr>,
      \<lparr>s_state = SIMULATING, s_message = ''Simulating transaction'', delay = 500\<rparr>,
      \<lparr>s_state = SUBMITTING, s_message = ''Submitting to chain'', delay = 400\<rparr>,
      \<lparr>s_state = CONFIRMING, s_message = ''Waiting for confirmation'', delay = 1000\<rparr>,
      \<lparr>s_state = VERIFYING, s_message = ''Verifying outcome'', delay = 300\<rparr>]"

text \<open>Where an invocation of the async function \<^verbatim>\<open>simulateExecution\<close> stands after it
  has run: suspended at the \<^verbatim>\<open>await\<close> of the stage with the given index, returned, or
  left by an exception of a callback (its promise is rejected).\<close>

datatype 'w driver = Await nat 'w | Resolved 'w | Rejected 'w

text \<open>The code after the loop (\<^verbatim>\<open>// Complete successfully\<close>).\<close>

definition completeExecution ::
  "(Callback \<Rightarrow> Notification \<Rightarrow> 'w \<Rightarrow> (unit, 'w) completion) \<Rightarrow>
   UUID \<Rightarrow> Timestamp \<Rightarrow> MockState \<Rightarrow> 'w \<Rightarrow> MockState \<times> 'w driver" where
  "completeExecution run i now ms w =
     (case map_get (intents ms) i of
        None \<Rightarrow> (ms, Resolved w)
      | Some final \<Rightarrow>
          if state final = CANCELLED then (ms, Resolved w)
          else
            let final' = final\<lparr>state := COMPLETED,
                               completedAt := Some now,
                               outcome := Some
                                 \<lparr>success = True,
                                  actualOutput = Some \<lparr>asset = output' (intent final),
                                                       amount = ''526180000000''\<rparr>,
                                  actualFees = ''5000'',
                                  actualSlippageBps = 25,
                                  transactionId = Some (''mock-tx-'' @ take 8 i)\<rparr>,
                               events := events final @
                                 [\<lparr>stage = ''VERIFICATION'', type = ''COMPLETED'',
                                   message = ''Execution completed successfully'',
                                   timestamp = now\<rparr>]\<rparr>;
                ms' = ms\<lparr>intents := map_set i final' (intents ms)\<rparr>
            in (case notifyWatchers run ms' i
                       \<lparr>n_intentId = i, n_state = COMPLETED,
                        n_event = last_elem (events final'), n_timestamp = now\<rparr> w of
                  Returned _ w' \<Rightarrow> (ms', Resolved w')
                | Threw w' \<Rightarrow> (ms', Rejected w')))"

text \<open>\<^verbatim>\<open>simulateExecution\<close> resumed when the timer of the stage with index \<open>k\<close> has fired. It
  runs the rest of that loop iteration and goes on to the next \<^verbatim>\<open>await\<close>, or, after the
  last stage, through the code after the loop, without a suspension in between.\<close>

definition simulateExecution ::
  "(Callback \<Rightarrow> Notification \<Rightarrow> 'w \<Rightarrow> (unit, 'w) completion) \<Rightarrow>
   UUID \<Rightarrow> nat \<Rightarrow> real \<Rightarrow> Timestamp \<Rightarrow> MockState \<Rightarrow> 'w \<Rightarrow> MockState \<times> 'w driver" where
  "simulateExecution run i k r now ms w =
     (let stg = stages ! k in
      case map_get (intents ms) i of
        None \<Rightarrow> (ms, Resolved w)
      | Some current \<Rightarrow>
          if state current = CANCELLED then (ms, Resolved w)
          else if r < 0.05 \<and> s_state stg \<noteq> VALIDATING then
            let current' = current\<lparr>state := FAILED,
                                   completedAt := Some now,
                                   events := events current @
                                     [\<lparr>stage = stateName (s_state stg), type = ''FAILED'',
                                       message = ''Simulated failure at '' @ stateName (s_state stg),
                                       timestamp = now\<rparr>]\<rparr>;
                ms' = ms\<lparr>intents := map_set i current' (intents ms)\<rparr>
            in (case notifyWatchers run ms' i
                       \<lparr>n_intentId = i, n_state = FAILED,
                        n_event = last_elem (events current'), n_timestamp = now\<rparr> w of
                  Returned _ w' \<Rightarrow> (ms', Resolved w')
                | Threw w' \<Rightarrow> (ms', Rejected w'))
          else
            let current' = current\<lparr>state := s_state stg,
                                   events := events current @
                                     [\<lparr>stage = stateName (s_state stg), type = ''STATE_CHANGE'',
                                       message = s_message stg, timestamp = now\<rparr>]\<rparr>;
                ms' = ms\<lparr>intents := map_set i current' (intents ms)\<rparr>
            in (case notifyWatchers run ms' i
                       \<lparr>n_intentId = i, n_state = s_state stg,
                        n_event = last_elem (events current'), n_timestamp = now\<rparr> w of
                  Threw w' \<Rightarrow> (ms', Rejected w')
                | Returned _ w' \<Rightarrow>
                    if Suc k < length stages then (ms', Await (Suc k) w')
                    else completeExecution run i now ms' w'))"

subsection \<open>Execution control\<close>

definition isPaused :: "MockState \<Rightarrow> bool" where
  "isPaused ms = paused ms"

definition pause :: "MockState \<Rightarrow> MockState" where
  "pause ms = ms\<lparr>paused := True\<rparr>"

definition resume :: "MockState \<Rightarrow> MockState" where
  "resume ms = ms\<lparr>paused := False\<rparr>"

text \<open>The two loops of \<^verbatim>\<open>kill\<close>, each with its counter.\<close>

fun kill_intents :: "Timestamp \<Rightarrow> (UUID \<times> StoredIntent) list \<Rightarrow> nat \<Rightarrow> (UUID \<times> StoredIntent) list \<times> nat" where
  "kill_intents now [] executionsKilled = ([], executionsKilled)"
| "kill_intents now ((k, i) # m) executionsKilled =
     (if state i \<notin> set [COMPLETED, FAILED, CANCELLED]
      then (let (m', n) = kill_intents now m (Suc executionsKilled)
            in ((k, i\<lparr>state := CANCELLED, completedAt := Some now\<rparr>) # m', n))
      else (let (m', n) = kill_intents now m executionsKilled in ((k, i) # m', n)))"

fun kill_agents :: "Timestamp \<Rightarrow> (string \<times> StoredAgent) list \<Rightarrow> nat \<Rightarrow> (string \<times> StoredAgent) list \<times> nat" where
  "kill_agents now [] agentsStopped = ([], agentsStopped)"
| "kill_agents now ((k, a) # m) agentsStopped =
     (if status a = A_RUNNING
      then (let (m', n) = kill_agents now m (Suc agentsStopped)
            in ((k, a\<lparr>status := A_STOPPED, stoppedAt := Some now\<rparr>) # m', n))
      else (let (m', n) = kill_agents now m agentsStopped in ((k, a) # m', n)))"

record KillResult =
  executionsKilled :: nat
  agentsStopped :: nat

definition kill :: "Timestamp \<Rightarrow> MockState \<Rightarrow> MockState \<times> KillResult" where
  "kill now ms =
     (let (is, nk) = kill_intents now (intents ms) 0;
          (as, ns) = kill_agents now (agents ms) 0
      in (ms\<lparr>intents := is, agents := as\<rparr>, \<lparr>executionsKilled = nk, agentsStopped = ns\<rparr>))"

record QueueStatus =
  pendingIntents :: nat
  executingIntents :: nat
  runningAgents :: nat
  q_paused :: bool

fun queue_loop :: "StoredIntent list \<Rightarrow> nat \<Rightarrow> nat \<Rightarrow> nat \<times> nat" where
  "queue_loop [] pending executing = (pending, executing)"
| "queue_loop (i # is) pending executing =
     queue_loop is
       (if state i = PENDING then Suc pending else pending)
       (if state i \<in> set [VALIDATING, PLANNING, SIMULATING, SUBMITTING, CONFIRMING, VERIFYING]
        then Suc executing else executing)"

definition getQueueStatus :: "MockState \<Rightarrow> QueueStatus" where
  "getQueueStatus ms =
     (let (pending, executing) = queue_loop (map_values (intents ms)) 0 0
      in \<lparr>pendingIntents = pending,
          executingIntents = executing,
          runningAgents = length (filter (\<lambda>a. status a = A_RUNNING) (map_values (agents ms))),
          q_paused = paused ms\<rparr>)"


subsection \<open>Numbers and strings of JavaScript, as far as the list query uses them\<close>

text \<open>The numbers that reach \<^verbatim>\<open>listIntents\<close> are results of \<^verbatim>\<open>parseInt\<close> or the
  default \<^verbatim>\<open>20\<close>: an integer or \<^verbatim>\<open>NaN\<close>. Integers are exact here; the doubles of the
  code are the same numbers up to \<open>2^53\<close> in magnitude, and \<^verbatim>\<open>String\<close> writes them in
  decimal digits below \<open>10^21\<close>.\<close>

datatype jsnum = NaN | Num int

fun js_add :: "jsnum \<Rightarrow> jsnum \<Rightarrow> jsnum" where
  "js_add (Num a) (Num b) = Num (a + b)"
| "js_add _ _ = NaN"

fun js_lt :: "jsnum \<Rightarrow> jsnum \<Rightarrow> bool" where
  "js_lt (Num a) (Num b) = (a < b)"
| "js_lt _ _ = False"

fun toIntegerOrInfinity :: "jsnum \<Rightarrow> int" where
  "toIntegerOrInfinity NaN = 0"
| "toIntegerOrInfinity (Num a) = a"

text \<open>\<^verbatim>\<open>Array.prototype.slice(start, end)\<close>: a negative index counts from the end.\<close>

definition js_slice :: "jsnum \<Rightarrow> jsnum \<Rightarrow> 'a list \<Rightarrow> 'a list" where
  "js_slice start end xs =
     (let len = int (length xs);
          relativeStart = toIntegerOrInfinity start;
          k = (if relativeStart < 0 then max (len + relativeStart) 0 else min relativeStart len);
          relativeEnd = toIntegerOrInfinity end;
          final = (if relativeEnd < 0 then max (len + relativeEnd) 0 else min relativeEnd len)
      in take (nat (final - k)) (drop (nat k) xs))"

text \<open>A string that comes from the query of a request, as JavaScript has it: a sequence of
  UTF-16 code units, each a number below \<open>2^16\<close>. \<open>js\<close> writes such a string with the
  characters of a literal.\<close>

type_synonym jsstring = "nat list"

definition js :: "string \<Rightarrow> jsstring" where
  "js s = map of_char s"

fun showNat :: "nat \<Rightarrow> jsstring" where
  "showNat n = (if n < 10 then [48 + n] else showNat (n div 10) @ [48 + n mod 10])"

declare showNat.simps [simp del]

text \<open>\<^verbatim>\<open>String(n)\<close>\<close>

fun js_String :: "jsnum \<Rightarrow> jsstring" where
  "js_String NaN = js ''NaN''"
| "js_String (Num a) = (if a < 0 then 45 # showNat (nat (- a)) else showNat (nat a))"

text \<open>The code units that \<^verbatim>\<open>parseInt\<close> skips at the start of its argument: the white space
  and the line terminators of ECMAScript (TAB, LF, VT, FF, CR, space, no-break space,
  U+1680, U+2000 to U+200A, U+2028, U+2029, U+202F, U+205F, U+3000, U+FEFF).\<close>

definition isWhiteSpace :: "nat \<Rightarrow> bool" where
  "isWhiteSpace c =
     (c \<in> set [0x09, 0x0A, 0x0B, 0x0C, 0x0D, 0x20, 0xA0, 0x1680, 0x2028, 0x2029, 0x202F,
               0x205F, 0x3000, 0xFEFF]
      \<or> (0x2000 \<le> c \<and> c \<le> 0x200A))"

definition digitValue :: "nat \<Rightarrow> nat option" where
  "digitValue n =
     (if 48 \<le> n \<and> n \<le> 57 then Some (n - 48)
      else if 97 \<le> n \<and> n \<le> 122 then Some (n - 87)
      else if 65 \<le> n \<and> n \<le> 90 then Some (n - 55)
      else None)"

text \<open>\<^verbatim>\<open>parseInt(string)\<close> with no radix: leading white space, a sign (\<open>-\<close> is 45, \<open>+\<close> is
  43), a prefix \<^verbatim>\<open>0x\<close> or \<^verbatim>\<open>0X\<close>, then the longest run of digits of the radix; \<^verbatim>\<open>NaN\<close>
  when there is none.\<close>

definition parseInt :: "jsstring \<Rightarrow> jsnum" where
  "parseInt input =
     (let s = dropWhile isWhiteSpace input;
          sign = (if s \<noteq> [] \<and> hd s = 45 then - 1 else (1::int));
          s1 = (if s \<noteq> [] \<and> (hd s = 43 \<or> hd s = 45) then tl s else s);
          hex = (2 \<le> length s1 \<and> (take 2 s1 = js ''0x'' \<or> take 2 s1 = js ''0X''));
          R = (if hex then 16 else (10::nat));
          s2 = (if hex then drop 2 s1 else s1);
          z = takeWhile (\<lambda>c. case digitValue c of Some d \<Rightarrow> d < R | None \<Rightarrow> False) s2
      in if z = [] then NaN
         else Num (sign * int (foldl (\<lambda>acc c. acc * R + the (digitValue c)) 0 z)))"

text \<open>\<^verbatim>\<open>String.prototype.split(',')\<close>; the comma is 44.\<close>

fun split_comma :: "jsstring \<Rightarrow> jsstring list" where
  "split_comma [] = [[]]"
| "split_comma (c # cs) =
     (if c = 44 then [] # split_comma cs
      else (case split_comma cs of p # ps \<Rightarrow> (c # p) # ps | [] \<Rightarrow> [[c]]))"

subsection \<open>The list query\<close>

text \<open>The entries of \<open>states\<close> are strings at run time, whatever the query held.\<close>

record ListFilters =
  f_states :: "jsstring list option"
  f_limit :: "jsnum option"
  f_cursor :: "jsstring option"

definition listIntents :: "ListFilters option \<Rightarrow> MockState \<Rightarrow> StoredIntent list \<times> jsstring option" where
  "listIntents filters ms =
     (let results0 = map_values (intents ms);
          results1 = (case Option.bind filters f_states of
                        Some sts \<Rightarrow>
                          if sts \<noteq> []
                          then filter (\<lambda>i. js (stateName (state i)) \<in> set sts) results0
                          else results0
                      | None \<Rightarrow> results0);
          results = sort_key (\<lambda>i. - createdAt i) results1;
          limit = (case Option.bind filters f_limit of Some l \<Rightarrow> l | None \<Rightarrow> Num 20);
          startIndex = (case Option.bind filters f_cursor of
                          Some c \<Rightarrow> if c \<noteq> [] then parseInt c else Num 0
                        | None \<Rightarrow> Num 0);
          slice = js_slice startIndex (js_add startIndex limit) results
      in (slice,
          if js_lt (js_add startIndex limit) (Num (int (length results)))
          then Some (js_String (js_add startIndex limit)) else None))"

text \<open>The response of \<^verbatim>\<open>GET /api/v1/intents\<close>; of each listed intent the fields \<open>id\<close>,
  \<open>action\<close>, \<open>state\<close>, \<open>createdAt\<close> and \<open>output\<close>.\<close>

record IntentSummary =
  i_id :: UUID
  i_action :: string
  i_state :: ExecutionState
  i_createdAt :: Timestamp
  i_output :: "AssetAmount option"

record ListResponse =
  r_intents :: "IntentSummary list"
  nextCursor :: "jsstring option"
  totalCount :: nat

definition listHandler :: "jsstring option \<Rightarrow> jsstring option \<Rightarrow> jsstring option \<Rightarrow> MockState \<Rightarrow> ListResponse" where
  "listHandler q_limit q_cursor q_states ms =
     (let limit = parseInt (case q_limit of None \<Rightarrow> js ''20'' | Some l \<Rightarrow> l);
          cursor = q_cursor;
          sts = map_option split_comma q_states;
          result = listIntents (Some \<lparr>f_states = sts, f_limit = Some limit, f_cursor = cursor\<rparr>) ms
      in \<lparr>r_intents = map (\<lambda>i. \<lparr>i_id = id' i, i_action = action (intent i), i_state = state i,
                                 i_createdAt = createdAt i,
                                 i_output = Option.bind (outcome i) actualOutput\<rparr>)
                           (fst result),
          nextCursor = snd result,
          totalCount = length (fst result)\<rparr>)"

subsection \<open>The watch stream\<close>

text \<open>What \<^verbatim>\<open>stream.writeSSE\<close> puts on a connection: the JSON of a notification, or the
  end-of-stream marker \<^verbatim>\<open>[DONE]\<close>. The world of the server's callbacks is the content of
  every connection's stream; a write is taken to reach the stream when it is issued.\<close>

datatype SSE = Data Notification | Done

text \<open>The callback that the watch handler registers; \<open>c\<close> names it and its stream.\<close>

definition sseCallback :: "Callback \<Rightarrow> Notification \<Rightarrow> (Callback \<Rightarrow> SSE list) \<Rightarrow> (unit, Callback \<Rightarrow> SSE list) completion" where
  "sseCallback c event w =
     Returned () (w(c := w c @ Data event #
                      (if n_state event \<in> set [COMPLETED, FAILED, CANCELLED] then [Done] else [])))"

text \<open>\<^verbatim>\<open>GET /api/v1/intents/:id/watch\<close> up to the point where it waits for the client to
  abort; \<open>None\<close> is the 404 response. \<open>c\<close> is the closure this request creates.\<close>

definition watchHandler ::
  "UUID \<Rightarrow> Callback \<Rightarrow> Timestamp \<Rightarrow> MockState \<Rightarrow> (Callback \<Rightarrow> SSE list) \<Rightarrow>
   (MockState \<times> (Callback \<Rightarrow> SSE list)) option" where
  "watchHandler i c now ms w =
     (case getIntent ms i of
        None \<Rightarrow> None
      | Some rec \<Rightarrow>
          let w1 = w(c := w c @ [Data \<lparr>n_intentId = i, n_state = state rec,
                                      n_event = last_elem (events rec), n_timestamp = now\<rparr>])
          in if state rec \<in> set [COMPLETED, FAILED, CANCELLED]
             then Some (ms, w1(c := w1 c @ [Done]))
             else Some (watchIntent i c ms, w1))"

subsection \<open>The server: store, driver invocations, connections\<close>

text \<open>One invocation of \<^verbatim>\<open>simulateExecution\<close>: the intent it drives, the stage whose
  timer it waits for, the time at which that timer is due, and whether it is still
  running.\<close>

record Task =
  t_id :: UUID
  t_stage :: nat
  t_wake :: Timestamp
  t_live :: bool

record System =
  store :: MockState
  tasks :: "Task list"
  streams :: "Callback \<Rightarrow> SSE list"
  conns :: "UUID list"
  clock :: Timestamp

text \<open>What can happen at the server: the engine operations, a timer of a driver firing
  with the random draw of that step, a client opening a watch stream, a client aborting
  it.\<close>

datatype Op =
  Create Intent UUID | Fire nat real | Cancel UUID | Kill | Pause | Resume
  | Watch UUID | Abort nat

definition settle :: "Task \<Rightarrow> Timestamp \<Rightarrow> 'w driver \<Rightarrow> Task" where
  "settle t now d =
     (case d of
        Await k _ \<Rightarrow> t\<lparr>t_stage := k, t_wake := now + delay (stages ! k)\<rparr>
      | Resolved _ \<Rightarrow> t\<lparr>t_live := False\<rparr>
      | Rejected _ \<Rightarrow> t\<lparr>t_live := False\<rparr>)"

fun world_of :: "'w driver \<Rightarrow> 'w" where
  "world_of (Await _ w) = w"
| "world_of (Resolved w) = w"
| "world_of (Rejected w) = w"

fun world_after :: "('a, 'w) completion \<Rightarrow> 'w" where
  "world_after (Returned _ w) = w"
| "world_after (Threw w) = w"

text \<open>One event at time \<open>now\<close>; \<open>None\<close> when it cannot happen: a timer fires only
  for a running driver, not before it is due. \<^verbatim>\<open>createIntent\<close> calls
  \<^verbatim>\<open>simulateExecution\<close>, which finds the record just stored and runs to the \<^verbatim>\<open>await\<close>
  of the first stage: a new task. The handlers of cancel, kill, pause and resume call the
  method of the same name.\<close>

fun perform :: "Timestamp \<Rightarrow> Op \<Rightarrow> System \<Rightarrow> System option" where
  "perform now (Create i fresh) S =
     (let (ms', stored) = createIntent i fresh now (store S)
      in Some (S\<lparr>store := ms',
                 tasks := tasks S @ [\<lparr>t_id = id' stored, t_stage = 0,
                                      t_wake = now + delay (stages ! 0), t_live = True\<rparr>]\<rparr>))"
| "perform now (Fire n r) S =
     (if n < length (tasks S) \<and> t_live (tasks S ! n) \<and> t_wake (tasks S ! n) \<le> now
         \<and> t_stage (tasks S ! n) < length stages
      then (let t = tasks S ! n;
                (ms', d) = simulateExecution sseCallback (t_id t) (t_stage t) r now
                             (store S) (streams S)
            in Some (S\<lparr>store := ms', streams := world_of d,
                       tasks := (tasks S)[n := settle t now d]\<rparr>))
      else None)"
| "perform now (Cancel i) S =
     (let (ms', c) = cancelIntent sseCallback i now (store S) (streams S)
      in Some (S\<lparr>store := ms', streams := world_after c\<rparr>))"
| "perform now Kill S = Some (S\<lparr>store := fst (kill now (store S))\<rparr>)"
| "perform now Pause S = Some (S\<lparr>store := pause (store S)\<rparr>)"
| "perform now Resume S = Some (S\<lparr>store := resume (store S)\<rparr>)"
| "perform now (Watch i) S =
     (case watchHandler i (length (conns S)) now (store S) (streams S) of
        None \<Rightarrow> Some S
      | Some (ms', w) \<Rightarrow> Some (S\<lparr>store := ms', streams := w, conns := conns S @ [i]\<rparr>))"
| "perform now (Abort c) S =
     (if c < length (conns S) then Some (S\<lparr>store := unsubscribe (conns S ! c) c (store S)\<rparr>)
      else None)"

text \<open>Time does not run backwards.\<close>

definition exec :: "Timestamp \<times> Op \<Rightarrow> System \<Rightarrow> System option" where
  "exec e S =
     (if fst e < clock S then None
      else map_option (\<lambda>S'. S'\<lparr>clock := fst e\<rparr>) (perform (fst e) (snd e) S))"

fun replay :: "(Timestamp \<times> Op) list \<Rightarrow> System \<Rightarrow> System option" where
  "replay [] S = Some S"
| "replay (e # es) S = (case exec e S of None \<Rightarrow> None | Some S' \<Rightarrow> replay es S')"

definition emptyState :: MockState where
  "emptyState = \<lparr>intents = [], agents = [], intentWatchers = [], paused = False\<rparr>"

definition boot :: System where
  "boot = \<lparr>store = emptyState, tasks = [], streams = (\<lambda>_. []), conns = [], clock = 0\<rparr>"

subsection \<open>Sample data\<close>

definition payload :: Intent where
  "payload = \<lparr>intent_id = Some ''a'', action = ''EXCHANGE'',
               output' = \<lparr>symbol = ''SOL'', decimals = 9\<rparr>\<rparr>"

text \<open>The store after \<^verbatim>\<open>createIntent\<close> at time 0 on an empty store, and the record it
  holds.\<close>

definition store1 :: MockState where
  "store1 = fst (createIntent payload ''u'' 0 emptyState)"

definition rec1 :: StoredIntent where
  "rec1 = snd (createIntent payload ''u'' 0 emptyState)"

definition noStreams :: "Callback \<Rightarrow> SSE list" where
  "noStreams = (\<lambda>_. [])"

text \<open>The same store after \<^verbatim>\<open>cancelIntent\<close> at time 20.\<close>

definition storeCancelled :: MockState where
  "storeCancelled = fst (cancelIntent sseCallback ''a'' 20 store1 noStreams)"





subsection \<open>Reading a state off an event\<close>

text \<open>The state that an event of the log records, by the events the engine writes:
  \<^verbatim>\<open>STARTED\<close> is written with \<open>PENDING\<close>, \<^verbatim>\<open>STATE_CHANGE\<close> with the state named in
  \<open>stage\<close>, \<^verbatim>\<open>FAILED\<close>, \<^verbatim>\<open>CANCELLED\<close> and \<^verbatim>\<open>COMPLETED\<close> with the state of that name.\<close>

definition eventState :: "Event \<Rightarrow> ExecutionState option" where
  "eventState e =
     (if type e = ''STARTED'' then Some PENDING
      else if type e = ''STATE_CHANGE'' then
        find (\<lambda>s. stateName s = stage e)
          [PENDING, VALIDATING, PLANNING, SIMULATING, SUBMITTING, CONFIRMING, VERIFYING,
           COMPLETED, FAILED, CANCELLED, RETRYING]
      else if type e = ''FAILED'' then Some FAILED
      else if type e = ''CANCELLED'' then Some CANCELLED
      else if type e = ''COMPLETED'' then Some COMPLETED
      else None)"

text \<open>A record's state is consistent with its log when the last event records it.\<close>

definition consistent :: "StoredIntent \<Rightarrow> bool" where
  "consistent rec =
     (case last_elem (events rec) of None \<Rightarrow> False | Some e \<Rightarrow> eventState e = Some (state rec))"

subsection \<open>The kill switch\<close>

definition killed :: "Timestamp \<Rightarrow> StoredIntent \<Rightarrow> StoredIntent" where
  "killed now i =
     (if state i \<notin> set [COMPLETED, FAILED, CANCELLED]
      then i\<lparr>state := CANCELLED, completedAt := Some now\<rparr> else i)"

text \<open>A client creates the intent at time 0 and opens a watch stream at time 10.\<close>

definition watched :: "(Timestamp \<times> Op) list" where
  "watched = [(0, Create payload ''u''), (10, Watch ''a'')]"

text \<open>A message of a stream in brief: the state it carries, or \<open>None\<close> for \<^verbatim>\<open>[DONE]\<close>.\<close>

fun brief :: "SSE \<Rightarrow> ExecutionState option" where
  "brief (Data n) = Some (n_state n)"
| "brief Done = None"

text \<open>What is seen of an intent: its state, \<open>completedAt\<close>, the types of the events of
  its log, and what the first connection has received.\<close>

definition seen :: "UUID \<Rightarrow> System \<Rightarrow> (ExecutionState \<times> Timestamp option \<times> string list) option \<times> ExecutionState option list" where
  "seen i S =
     (map_option (\<lambda>rec. (state rec, completedAt rec, map type (events rec)))
        (getIntent (store S) i),
      map brief (streams S 0))"

subsection \<open>The paused flag of a server\<close>

definition setPaused :: "bool \<Rightarrow> System \<Rightarrow> System" where
  "setPaused b S = S\<lparr>store := (store S)\<lparr>paused := b\<rparr>\<rparr>"

text \<open>The timers of the six stages of the first driver, fired when they are due, each
  with a draw of 0.5; the creation of the intent followed by the first of them, and by
  all of them.\<close>

definition sixFires :: "(Timestamp \<times> Op) list" where
  "sixFires = [(200, Fire 0 0.5), (500, Fire 0 0.5), (1000, Fire 0 0.5), (1400, Fire 0 0.5),
               (2400, Fire 0 0.5), (2700, Fire 0 0.5)]"

definition firstStep :: "(Timestamp \<times> Op) list" where
  "firstStep = [(0, Create payload ''u''), (200, Fire 0 0.5)]"

definition fullRun :: "(Timestamp \<times> Op) list" where
  "fullRun = (0, Create payload ''u'') # sixFires"

definition successLog :: "string list" where
  "successLog = [''STARTED'', ''STATE_CHANGE'', ''STATE_CHANGE'', ''STATE_CHANGE'',
                 ''STATE_CHANGE'', ''STATE_CHANGE'', ''STATE_CHANGE'', ''COMPLETED'']"

subsection \<open>Reading a list query\<close>

text \<open>Whether an intent matches the state filter of a query (no filter, or an empty one,
  matches every intent), and the numbers that the query's limit and cursor stand for.\<close>

definition matches :: "ListFilters option \<Rightarrow> StoredIntent \<Rightarrow> bool" where
  "matches f i =
     (case Option.bind f f_states of
        None \<Rightarrow> True
      | Some sts \<Rightarrow> sts = [] \<or> js (stateName (state i)) \<in> set sts)"

definition limitOf :: "ListFilters option \<Rightarrow> jsnum" where
  "limitOf f = (case Option.bind f f_limit of Some l \<Rightarrow> l | None \<Rightarrow> Num 20)"

definition startIndexOf :: "ListFilters option \<Rightarrow> jsnum" where
  "startIndexOf f =
     (case Option.bind f f_cursor of
        Some c \<Rightarrow> if c \<noteq> [] then parseInt c else Num 0
      | None \<Rightarrow> Num 0)"

text \<open>The filters that the handler of \<^verbatim>\<open>GET /api/v1/intents\<close> builds from the query
  parameters.\<close>

definition queryFilters :: "jsstring option \<Rightarrow> jsstring option \<Rightarrow> jsstring option \<Rightarrow> ListFilters option" where
  "queryFilters q_limit q_cursor q_states =
     Some \<lparr>f_states = map_option split_comma q_states,
           f_limit = Some (parseInt (case q_limit of None \<Rightarrow> js ''20'' | Some l \<Rightarrow> l)),
           f_cursor = q_cursor\<rparr>"

text \<open>Whether the \<^verbatim>\<open>states\<close> parameter of a query names a state, and the states that are
  not terminal.\<close>

definition namesState :: "jsstring option \<Rightarrow> ExecutionState \<Rightarrow> bool" where
  "namesState q_states s =
     (case q_states of None \<Rightarrow> False | Some p \<Rightarrow> js (stateName s) \<in> set (split_comma p))"

definition nonTerminal :: "ExecutionState list" where
  "nonTerminal =
     [PENDING, VALIDATING, PLANNING, SIMULATING, SUBMITTING, CONFIRMING, VERIFYING, RETRYING]"

text \<open>A store with three pending intents, created at times 0, 5 and 7, and the same store
  after the first of them was cancelled at time 10.\<close>

definition store3 :: MockState where
  "store3 = store (the (replay [(0, Create payload ''u''),
                               (5, Create (payload\<lparr>intent_id := None\<rparr>) ''b''),
                               (7, Create (payload\<lparr>intent_id := None\<rparr>) ''c'')] boot))"

definition storeMixed :: MockState where
  "storeMixed = fst (cancelIntent sseCallback ''a'' 10 store3 noStreams)"

text \<open>The cursor \<^verbatim>\<open>-1\<close> behind a no-break space.\<close>

definition nbspMinusOne :: jsstring where
  "nbspMinusOne = 0xA0 # js ''-1''"

text \<open>Queries: the newest two intents; a limit of \<open>-1\<close>; one item from the cursor \<open>-5\<close>;
  two items from a cursor that is not a number.\<close>

definition firstTwo :: "ListFilters option" where
  "firstTwo = Some \<lparr>f_states = None, f_limit = Some (Num 2), f_cursor = None\<rparr>"

definition minusOne :: "ListFilters option" where
  "minusOne = Some \<lparr>f_states = None, f_limit = Some (Num (- 1)), f_cursor = None\<rparr>"

definition fromEnd :: "ListFilters option" where
  "fromEnd = Some \<lparr>f_states = None, f_limit = Some (Num 1), f_cursor = Some (js ''-5'')\<rparr>"

definition notNumber :: "ListFilters option" where
  "notNumber = Some \<lparr>f_states = None, f_limit = Some (Num 2), f_cursor = Some (js ''x'')\<rparr>"

definition terminalMessages :: "Notification \<Rightarrow> SSE list" where
  "terminalMessages event =
     Data event # (if n_state event \<in> set [COMPLETED, FAILED, CANCELLED] then [Done] else [])"

subsection \<open>The success path\<close>

definition successPath :: "ExecutionState list" where
  "successPath =
     [PENDING, VALIDATING, PLANNING, SIMULATING, SUBMITTING, CONFIRMING, VERIFYING, COMPLETED]"

text \<open>The states an intent has been given when \<open>k\<close> timers of its driver have fired: the
  sixth firing gives \<open>VERIFYING\<close> and \<open>COMPLETED\<close> in one run.\<close>

definition seenStates :: "nat \<Rightarrow> ExecutionState list" where
  "seenStates k = take (if k < 6 then Suc k else 8) successPath"

text \<open>The states that the log of a record records, event by event.\<close>

definition observed :: "StoredIntent \<Rightarrow> ExecutionState option list" where
  "observed rec = map eventState (events rec)"

definition createdId :: "Intent \<Rightarrow> UUID \<Rightarrow> UUID" where
  "createdId i fresh = (case intent_id i of None \<Rightarrow> fresh | Some x \<Rightarrow> x)"

text \<open>An event leaves the intent \<open>a\<close>, whose driver is task \<open>n\<close> and waits at stage \<open>k\<close>,
  undisturbed: it does not cancel or kill it, does not create an intent under the same
  id, and when it is the timer of the driver the draw does not inject a failure.\<close>

fun calm :: "UUID \<Rightarrow> nat \<Rightarrow> nat \<Rightarrow> Op \<Rightarrow> bool" where
  "calm a n k (Create i fresh) = (createdId i fresh \<noteq> a)"
| "calm a n k (Cancel i) = (i \<noteq> a)"
| "calm a n k Kill = False"
| "calm a n k (Fire m r) = (m = n \<longrightarrow> \<not> (r < 0.05 \<and> s_state (stages ! k) \<noteq> VALIDATING))"
| "calm a n k _ = True"

fun bump :: "nat \<Rightarrow> Op \<Rightarrow> nat \<Rightarrow> nat" where
  "bump n (Fire m r) k = (if m = n then Suc k else k)"
| "bump n _ k = k"

fun undisturbed :: "UUID \<Rightarrow> nat \<Rightarrow> nat \<Rightarrow> (Timestamp \<times> Op) list \<Rightarrow> bool" where
  "undisturbed a n k [] = True"
| "undisturbed a n k (e # es) = (calm a n k (snd e) \<and> undisturbed a n (bump n (snd e) k) es)"

text \<open>The number of timers of task \<open>n\<close> that have fired after a trace, starting from \<open>k\<close>.\<close>

fun fired :: "nat \<Rightarrow> (Timestamp \<times> Op) list \<Rightarrow> nat \<Rightarrow> nat" where
  "fired n [] k = k"
| "fired n (e # es) k = fired n es (bump n (snd e) k)"

text \<open>A record that has come \<open>k\<close> firings along the success path, and a server in which
  the intent \<open>a\<close> is such a record, driven by task \<open>n\<close> and by no other running task.\<close>

definition progress :: "nat \<Rightarrow> StoredIntent \<Rightarrow> bool" where
  "progress k rec =
     (observed rec = map Some (seenStates k)
      \<and> state rec = last (seenStates k)
      \<and> (if k < 6 then outcome rec = None \<and> completedAt rec = None
          else map_option success (outcome rec) = Some True \<and> completedAt rec \<noteq> None))"

definition onPath :: "UUID \<Rightarrow> nat \<Rightarrow> nat \<Rightarrow> System \<Rightarrow> bool" where
  "onPath a n k S =
     (k \<le> 6 \<and> n < length (tasks S) \<and> t_id (tasks S ! n) = a
      \<and> t_live (tasks S ! n) = (k < 6)
      \<and> (k < 6 \<longrightarrow> t_stage (tasks S ! n) = k)
      \<and> (\<forall>m < length (tasks S). m \<noteq> n \<and> t_id (tasks S ! m) = a \<longrightarrow> \<not> t_live (tasks S ! m))
      \<and> (\<exists>rec. getIntent (store S) a = Some rec \<and> progress k rec))"

text \<open>The intent is submitted twice under the same id, at times 0 and 100, and the
  timers of both drivers fire when they are due, each with a draw of 0.5.\<close>

definition doubleRun :: "(Timestamp \<times> Op) list" where
  "doubleRun =
     [(0, Create payload ''u''), (100, Create payload ''u''),
      (200, Fire 0 0.5), (300, Fire 1 0.5), (500, Fire 0 0.5), (600, Fire 1 0.5),
      (1000, Fire 0 0.5), (1100, Fire 1 0.5), (1400, Fire 0 0.5), (1500, Fire 1 0.5),
      (2400, Fire 0 0.5), (2500, Fire 1 0.5), (2700, Fire 0 0.5), (2800, Fire 1 0.5)]"

section \<open>Properties of the engine\<close>

subsection \<open>Maps and the stage table\<close>

lemma map_get_Nil [simp]: "map_get [] k = None"
  by (simp add: map_get_def)

lemma map_get_Cons [simp]:
  "map_get ((k', v) # m) k = (if k' = k then Some v else map_get m k)"
  by (auto simp: map_get_def)

lemma map_get_map_set_same [simp]: "map_get (map_set k v m) k = Some v"
  by (induction m) auto

lemma map_get_map_set_other [simp]: "k' \<noteq> k \<Longrightarrow> map_get (map_set k v m) k' = map_get m k'"
  by (induction m) auto

lemma length_stages [simp]: "length stages = 6"
  by (simp add: stages_def)

lemma first_stage: "s_state (stages ! 0) = VALIDATING"
  by (simp add: stages_def)

lemma later_stage: "k < length stages \<Longrightarrow> k \<noteq> 0 \<Longrightarrow> s_state (stages ! k) \<noteq> VALIDATING"
proof -
  assume k: "k < length stages" "k \<noteq> 0"
  then have "k \<in> {1, 2, 3, 4, 5}" by auto
  then show ?thesis by (auto simp: stages_def)
qed

lemma stage_state_in:
  "k < length stages \<Longrightarrow>
   s_state (stages ! k) \<in> {VALIDATING, PLANNING, SIMULATING, SUBMITTING, CONFIRMING, VERIFYING}"
proof -
  assume "k < length stages"
  then have "k \<in> {0, 1, 2, 3, 4, 5}" by auto
  then show ?thesis by (auto simp: stages_def)
qed

lemma store1_rec1: "getIntent store1 ''a'' = Some rec1"
  by (simp add: store1_def rec1_def createIntent_def payload_def emptyState_def Let_def
      getIntent_def)

lemma rec1_eq:
  "rec1 = \<lparr>id' = ''a'', intent = payload, state = PENDING,
           events = [\<lparr>stage = ''SUBMISSION'', type = ''STARTED'',
                      message = ''Intent received'', timestamp = 0\<rparr>],
           createdAt = 0, completedAt = None, outcome = None\<rparr>"
  by (simp add: rec1_def createIntent_def payload_def Let_def)

subsection \<open>Failure injection\<close>

text \<open>
  Claim C6. When the timer of the stage with index \<open>k\<close> fires for an intent that is in the
  store and not cancelled: if the draw is below 0.05 and the stage is not the first one,
  the record becomes \<open>FAILED\<close>, with \<open>completedAt\<close> set and one event appended whose
  message names the stage, and the driver does not go on to a further stage. The first
  stage is \<open>VALIDATING\<close> and no later stage is; there the record becomes \<open>VALIDATING\<close>
  whatever the draw. When no failure is injected the record is not \<open>FAILED\<close> after the
  step.
\<close>

theorem injected_failure:
  assumes "getIntent ms i = Some cur" and "state cur \<noteq> CANCELLED" and "k < length stages"
    and "simulateExecution call i k r now ms w = (ms', d)"
  shows "(r < 0.05 \<and> k \<noteq> 0 \<longrightarrow>
            s_state (stages ! k) \<noteq> VALIDATING
            \<and> getIntent ms' i = Some (cur\<lparr>state := FAILED, completedAt := Some now,
                 events := events cur @
                   [\<lparr>stage = stateName (s_state (stages ! k)), type = ''FAILED'',
                     message = ''Simulated failure at '' @ stateName (s_state (stages ! k)),
                     timestamp = now\<rparr>]\<rparr>)
            \<and> (\<forall>j w'. d \<noteq> Await j w'))
       \<and> (k = 0 \<longrightarrow>
            s_state (stages ! k) = VALIDATING
            \<and> getIntent ms' i = Some (cur\<lparr>state := VALIDATING,
                 events := events cur @
                   [\<lparr>stage = ''VALIDATING'', type = ''STATE_CHANGE'',
                     message = ''Validating intent'', timestamp = now\<rparr>]\<rparr>))
       \<and> (\<not> (r < 0.05 \<and> k \<noteq> 0) \<longrightarrow>
            (\<exists>rec. getIntent ms' i = Some rec \<and> state rec \<noteq> FAILED))"
proof (intro conjI impI)
  assume "r < 0.05 \<and> k \<noteq> 0"
  with assms later_stage[of k]
  show "getIntent ms' i = Some (cur\<lparr>state := FAILED, completedAt := Some now,
          events := events cur @
            [\<lparr>stage = stateName (s_state (stages ! k)), type = ''FAILED'',
              message = ''Simulated failure at '' @ stateName (s_state (stages ! k)),
              timestamp = now\<rparr>]\<rparr>)"
    by (auto simp: simulateExecution_def getIntent_def Let_def split: completion.splits)
next
  assume "r < 0.05 \<and> k \<noteq> 0"
  with assms later_stage[of k] show "\<forall>j w'. d \<noteq> Await j w'"
    by (auto simp: simulateExecution_def getIntent_def Let_def split: completion.splits)
next
  assume "r < 0.05 \<and> k \<noteq> 0"
  with assms later_stage[of k] show "s_state (stages ! k) \<noteq> VALIDATING" by simp
next
  assume "k = 0"
  then show "s_state (stages ! k) = VALIDATING" by (simp add: first_stage)
next
  assume "k = 0"
  with assms
  show "getIntent ms' i = Some (cur\<lparr>state := VALIDATING,
          events := events cur @
            [\<lparr>stage = ''VALIDATING'', type = ''STATE_CHANGE'',
              message = ''Validating intent'', timestamp = now\<rparr>]\<rparr>)"
    by (auto simp: simulateExecution_def getIntent_def Let_def stages_def
        split: completion.splits)
next
  assume "\<not> (r < 0.05 \<and> k \<noteq> 0)"
  with assms first_stage stage_state_in[of k]
  show "\<exists>rec. getIntent ms' i = Some rec \<and> state rec \<noteq> FAILED"
    by (auto simp: simulateExecution_def completeExecution_def getIntent_def Let_def
        split: completion.splits if_splits)
qed

theorem injected_failure_witness:
  "getIntent store1 ''a'' = Some rec1 \<and> state rec1 \<noteq> CANCELLED \<and> 2 < length stages
   \<and> state (the (getIntent (fst (simulateExecution sseCallback ''a'' 2 0.01 1000 store1 noStreams)) ''a''))
       = FAILED
   \<and> map message (events (the (getIntent
        (fst (simulateExecution sseCallback ''a'' 2 0.01 1000 store1 noStreams)) ''a'')))
       = [''Intent received'', ''Simulated failure at SIMULATING'']"
proof -
  have h1: "getIntent store1 ''a'' = Some rec1" by (rule store1_rec1)
  have h2: "state rec1 \<noteq> CANCELLED" by (simp add: rec1_eq)
  have h3: "2 < length stages" by simp
  have h4: "simulateExecution sseCallback ''a'' 2 0.01 1000 store1 noStreams =
              (fst (simulateExecution sseCallback ''a'' 2 0.01 1000 store1 noStreams),
               snd (simulateExecution sseCallback ''a'' 2 0.01 1000 store1 noStreams))"
    by simp
  from injected_failure[OF h1 h2 h3 h4] h1 h2 h3 show ?thesis
    by (simp add: rec1_eq stages_def)
qed

subsection \<open>Cancelling\<close>

lemma notify_sse_returns:
  "\<exists>w'. notifyWatchers sseCallback ms i event w = Returned () w'"
proof -
  have "\<exists>w'. forEach (\<lambda>cb. sseCallback cb event) cbs w = Returned () w'" for cbs
    by (induction cbs arbitrary: w) (auto simp: sseCallback_def)
  then show ?thesis
    by (auto simp: notifyWatchers_def split: option.splits)
qed

text \<open>On a completed or failed intent \<^verbatim>\<open>cancelIntent\<close> returns the record and changes
  nothing, whatever the callbacks are.\<close>

lemma cancel_finished_noop:
  assumes "getIntent ms i = Some rec" and "state rec = COMPLETED \<or> state rec = FAILED"
  shows "cancelIntent call i now ms w = (ms, Returned (Some rec) w)"
  using assms by (auto simp: cancelIntent_def getIntent_def)

lemma storeCancelled_rec:
  "getIntent storeCancelled ''a'' =
     Some (rec1\<lparr>state := CANCELLED, completedAt := Some 20,
                events := events rec1 @
                  [\<lparr>stage = ''SUBMISSION'', type = ''CANCELLED'',
                    message = ''Intent cancelled by user'', timestamp = 20\<rparr>]\<rparr>)"
proof -
  obtain w' where
    "notifyWatchers sseCallback
       (store1\<lparr>intents := map_set ''a''
          (rec1\<lparr>state := CANCELLED, completedAt := Some 20,
                 events := events rec1 @
                   [\<lparr>stage = ''SUBMISSION'', type = ''CANCELLED'',
                     message = ''Intent cancelled by user'', timestamp = 20\<rparr>]\<rparr>)
          (intents store1)\<rparr>) ''a''
       \<lparr>n_intentId = ''a'', n_state = CANCELLED,
        n_event = last_elem (events rec1 @
                   [\<lparr>stage = ''SUBMISSION'', type = ''CANCELLED'',
                     message = ''Intent cancelled by user'', timestamp = 20\<rparr>]),
        n_timestamp = 20\<rparr> noStreams = Returned () w'"
    using notify_sse_returns by blast
  moreover have "map_get (intents store1) ''a'' = Some rec1"
    using store1_rec1 by (simp add: getIntent_def)
  moreover have "state rec1 = PENDING" by (simp add: rec1_eq)
  ultimately show ?thesis
    by (simp add: storeCancelled_def cancelIntent_def getIntent_def Let_def)
qed

text \<open>
  Claim C4, at the input where the code departs from it. The intent \<open>''a''\<close> was cancelled
  at time 20: its state is \<open>CANCELLED\<close>, its log has two events, \<open>completedAt\<close> is 20.
  A second \<^verbatim>\<open>cancelIntent\<close> at time 30 returns the state \<open>CANCELLED\<close> again, but it
  appends a third event to the log and moves \<open>completedAt\<close> to 30: the guard of
  \<^verbatim>\<open>cancelIntent\<close> tests \<open>COMPLETED\<close> and \<open>FAILED\<close> only.
\<close>

theorem cancel_cancelled_again:
  "map_option state (getIntent storeCancelled ''a'') = Some CANCELLED
   \<and> map_option completedAt (getIntent storeCancelled ''a'') = Some (Some 20)
   \<and> map_option (map type \<circ> events) (getIntent storeCancelled ''a'')
       = Some [''STARTED'', ''CANCELLED'']
   \<and> map_option state
        (getIntent (fst (cancelIntent sseCallback ''a'' 30 storeCancelled noStreams)) ''a'')
       = Some CANCELLED
   \<and> map_option completedAt
        (getIntent (fst (cancelIntent sseCallback ''a'' 30 storeCancelled noStreams)) ''a'')
       = Some (Some 30)
   \<and> map_option (map type \<circ> events)
        (getIntent (fst (cancelIntent sseCallback ''a'' 30 storeCancelled noStreams)) ''a'')
       = Some [''STARTED'', ''CANCELLED'', ''CANCELLED'']"
proof -
  let ?r = "rec1\<lparr>state := CANCELLED, completedAt := Some 20,
                events := events rec1 @
                  [\<lparr>stage = ''SUBMISSION'', type = ''CANCELLED'',
                    message = ''Intent cancelled by user'', timestamp = 20\<rparr>]\<rparr>"
  have g: "map_get (intents storeCancelled) ''a'' = Some ?r"
    using storeCancelled_rec by (simp add: getIntent_def)
  have s: "state ?r = CANCELLED" by simp
  have "getIntent (fst (cancelIntent sseCallback ''a'' 30 storeCancelled noStreams)) ''a''
          = Some (?r\<lparr>state := CANCELLED, completedAt := Some 30,
                events := events ?r @
                  [\<lparr>stage = ''SUBMISSION'', type = ''CANCELLED'',
                    message = ''Intent cancelled by user'', timestamp = 30\<rparr>]\<rparr>)"
    using g by (simp add: cancelIntent_def getIntent_def Let_def split: completion.splits)
  then show ?thesis
    using storeCancelled_rec by (simp add: rec1_eq)
qed

lemmas server_eval =
  boot_def exec_def createIntent_def payload_def emptyState_def Let_def
  watchHandler_def getIntent_def watchIntent_def set_add_def stages_def last_elem_def seen_def
  cancelIntent_def notifyWatchers_def sseCallback_def kill_def simulateExecution_def
  completeExecution_def settle_def pause_def resume_def unsubscribe_def set_delete_def

subsection \<open>The kill switch\<close>

lemma kill_intents_eq:
  "kill_intents now m n =
     (map (\<lambda>(k, i). (k, killed now i)) m,
      n + length (filter (\<lambda>i. state i \<notin> set [COMPLETED, FAILED, CANCELLED]) (map_values m)))"
  by (induction m arbitrary: n) (auto simp: killed_def map_values_def)

lemma kill_store: "intents (fst (kill now ms)) = map (\<lambda>(k, i). (k, killed now i)) (intents ms)"
  by (simp add: kill_def kill_intents_eq split: prod.splits)

text \<open>The count that \<^verbatim>\<open>kill\<close> returns is the number of intents that were in none of the
  three terminal states; each entry of the store is visited once.\<close>

lemma kill_count:
  "executionsKilled (snd (kill now ms)) =
     length (filter (\<lambda>i. state i \<notin> set [COMPLETED, FAILED, CANCELLED]) (map_values (intents ms)))"
  by (simp add: kill_def kill_intents_eq split: prod.splits)

lemma kill_frame:
  "intentWatchers (fst (kill now ms)) = intentWatchers ms \<and> paused (fst (kill now ms)) = paused ms"
  by (simp add: kill_def split: prod.splits)

lemma killed_terminal: "state (killed now i) \<in> {COMPLETED, FAILED, CANCELLED}"
  by (simp add: killed_def)

lemma killed_log: "events (killed now i) = events i \<and> createdAt (killed now i) = createdAt i"
  by (simp add: killed_def)

text \<open>
  Claim C5, at the input where the code departs from it. A client creates intent \<open>''a''\<close>
  and opens a watch stream; the intent is \<open>PENDING\<close> and the stream holds the first
  message. \<^verbatim>\<open>kill\<close> at time 20 sets the state to \<open>CANCELLED\<close> and \<open>completedAt\<close> to 20 and
  counts one intent, but the log still ends with the \<^verbatim>\<open>STARTED\<close> event and the stream
  has received nothing. \<^verbatim>\<open>cancelIntent\<close> at the same point appends the \<^verbatim>\<open>CANCELLED\<close>
  event and sends it, followed by \<^verbatim>\<open>[DONE]\<close>.
\<close>

theorem kill_writes_no_event:
  "map_option (seen ''a'') (replay watched boot)
     = Some (Some (PENDING, None, [''STARTED'']), [Some PENDING])
   \<and> map_option (seen ''a'') (replay (watched @ [(20, Kill)]) boot)
     = Some (Some (CANCELLED, Some 20, [''STARTED'']), [Some PENDING])
   \<and> map_option (\<lambda>S. executionsKilled (snd (kill 20 (store S)))) (replay watched boot) = Some 1
   \<and> map_option (seen ''a'') (replay (watched @ [(20, Cancel ''a'')]) boot)
     = Some (Some (CANCELLED, Some 20, [''STARTED'', ''CANCELLED'']),
             [Some PENDING, Some CANCELLED, None])"
  by (simp add: watched_def server_eval)

subsection \<open>State and log\<close>

lemma last_elem_snoc [simp]: "last_elem (xs @ [x]) = Some x"
  by (simp add: last_elem_def)

lemma eventState_change:
  "eventState \<lparr>stage = stateName s, type = ''STATE_CHANGE'', message = m, timestamp = t\<rparr>
     = Some s"
  by (cases s) (simp_all add: eventState_def)

lemma eventState_final:
  "eventState \<lparr>stage = s, type = ''FAILED'', message = m, timestamp = t\<rparr> = Some FAILED"
  "eventState \<lparr>stage = s, type = ''CANCELLED'', message = m, timestamp = t\<rparr> = Some CANCELLED"
  "eventState \<lparr>stage = s, type = ''COMPLETED'', message = m, timestamp = t\<rparr> = Some COMPLETED"
  "eventState \<lparr>stage = s, type = ''STARTED'', message = m, timestamp = t\<rparr> = Some PENDING"
  by (simp_all add: eventState_def)

text \<open>\<^verbatim>\<open>createIntent\<close>, \<^verbatim>\<open>cancelIntent\<close> and every step of the driver leave the record they
  write with a state that its last event records.\<close>

lemma create_consistent: "consistent (snd (createIntent i fresh now ms))"
  by (simp add: createIntent_def Let_def consistent_def last_elem_def eventState_final)

lemma cancel_consistent:
  assumes "getIntent ms i = Some rec" and "consistent rec"
  shows "\<exists>rec'. getIntent (fst (cancelIntent call i now ms w)) i = Some rec' \<and> consistent rec'"
  using assms
  by (auto simp: cancelIntent_def getIntent_def Let_def consistent_def eventState_final
      split: completion.splits)

lemma complete_consistent:
  assumes "getIntent ms i = Some rec" and "consistent rec"
  shows "\<exists>rec'. getIntent (fst (completeExecution call i now ms w)) i = Some rec'
               \<and> consistent rec'"
  using assms
  by (auto simp: completeExecution_def getIntent_def Let_def consistent_def eventState_final
      split: completion.splits)

lemma step_consistent:
  assumes "getIntent ms i = Some rec" and "consistent rec" and "k < length stages"
  shows "\<exists>rec'. getIntent (fst (simulateExecution call i k r now ms w)) i = Some rec'
               \<and> consistent rec'"
proof -
  let ?adv = "rec\<lparr>state := s_state (stages ! k),
                  events := events rec @
                    [\<lparr>stage = stateName (s_state (stages ! k)), type = ''STATE_CHANGE'',
                      message = s_message (stages ! k), timestamp = now\<rparr>]\<rparr>"
  let ?ms = "ms\<lparr>intents := map_set i ?adv (intents ms)\<rparr>"
  have adv: "getIntent ?ms i = Some ?adv" "consistent ?adv"
    by (simp_all add: getIntent_def consistent_def eventState_change)
  have fin: "\<exists>rec'. getIntent (fst (completeExecution call i now ?ms w')) i = Some rec'
               \<and> consistent rec'" for w'
    using complete_consistent[OF adv] .
  show ?thesis
    using assms(1,2) adv fin
    by (auto simp: simulateExecution_def getIntent_def Let_def consistent_def eventState_final
        simp del: length_stages split: completion.splits)
qed

text \<open>
  Claim C2, at the input where the code departs from it. In the store that holds the
  freshly created intent \<open>''a''\<close> the state \<open>PENDING\<close> is the one its last event records.
  After \<^verbatim>\<open>kill\<close> the state is \<open>CANCELLED\<close> while the log is the same one-event log, whose
  last event is the \<^verbatim>\<open>STARTED\<close> event: the state is no longer consistent with the log,
  and the transition to \<open>CANCELLED\<close> appended no event.
\<close>

theorem kill_breaks_consistency:
  "map_option consistent (getIntent store1 ''a'') = Some True
   \<and> map_option state (getIntent (fst (kill 20 store1)) ''a'') = Some CANCELLED
   \<and> map_option events (getIntent (fst (kill 20 store1)) ''a'')
       = map_option events (getIntent store1 ''a'')
   \<and> map_option (map type \<circ> events) (getIntent (fst (kill 20 store1)) ''a'') = Some [''STARTED'']
   \<and> map_option consistent (getIntent (fst (kill 20 store1)) ''a'') = Some False"
  by (simp add: store1_def createIntent_def payload_def emptyState_def Let_def getIntent_def
      kill_def consistent_def eventState_def last_elem_def)

subsection \<open>Notification\<close>



text \<open>A callback that subscribes is put behind those already registered.\<close>

lemma watchIntent_order:
  "map_get (intentWatchers (watchIntent i c ms)) i =
     Some (set_add c (case map_get (intentWatchers ms) i of None \<Rightarrow> [] | Some cbs \<Rightarrow> cbs))"
  by (simp add: watchIntent_def Let_def split: option.splits)





subsection \<open>Pause and resume\<close>

lemma notify_paused [simp]:
  "notifyWatchers call (ms\<lparr>paused := b\<rparr>) i event w = notifyWatchers call ms i event w"
  "notifyWatchers call (ms\<lparr>paused := b, intents := X\<rparr>) i event w =
     notifyWatchers call (ms\<lparr>intents := X\<rparr>) i event w"
  by (simp_all add: notifyWatchers_def)

lemma complete_paused:
  "completeExecution call i now (ms\<lparr>paused := b\<rparr>) w =
     (fst (completeExecution call i now ms w)\<lparr>paused := b\<rparr>,
      snd (completeExecution call i now ms w))"
  by (simp add: completeExecution_def Let_def split: option.splits completion.splits)

lemma complete_paused_store:
  "completeExecution call i now (ms\<lparr>paused := b, intents := X\<rparr>) w =
     (fst (completeExecution call i now (ms\<lparr>intents := X\<rparr>) w)\<lparr>paused := b\<rparr>,
      snd (completeExecution call i now (ms\<lparr>intents := X\<rparr>) w))"
proof -
  have "ms\<lparr>paused := b, intents := X\<rparr> = (ms\<lparr>intents := X\<rparr>)\<lparr>paused := b\<rparr>"
    by (cases ms) simp
  then show ?thesis
    by (simp only: complete_paused)
qed

lemma simulate_paused:
  "simulateExecution call i k r now (ms\<lparr>paused := b\<rparr>) w =
     (fst (simulateExecution call i k r now ms w)\<lparr>paused := b\<rparr>,
      snd (simulateExecution call i k r now ms w))"
  by (simp add: simulateExecution_def Let_def complete_paused_store
      split: option.splits completion.splits)

lemma cancel_paused:
  "cancelIntent call i now (ms\<lparr>paused := b\<rparr>) w =
     (fst (cancelIntent call i now ms w)\<lparr>paused := b\<rparr>, snd (cancelIntent call i now ms w))"
  by (simp add: cancelIntent_def Let_def split: option.splits completion.splits)

lemma create_paused:
  "createIntent i fresh now (ms\<lparr>paused := b\<rparr>) =
     (fst (createIntent i fresh now ms)\<lparr>paused := b\<rparr>, snd (createIntent i fresh now ms))"
  by (simp add: createIntent_def Let_def)

lemma kill_paused: "fst (kill now (ms\<lparr>paused := b\<rparr>)) = fst (kill now ms)\<lparr>paused := b\<rparr>"
  by (simp add: kill_def split: prod.splits)

lemma watch_paused:
  "watchHandler i c now (ms\<lparr>paused := b\<rparr>) w =
     map_option (\<lambda>(ms', w'). (ms'\<lparr>paused := b\<rparr>, w')) (watchHandler i c now ms w)"
  by (simp add: watchHandler_def getIntent_def watchIntent_def Let_def split: option.splits)

lemma unsubscribe_paused:
  "unsubscribe i c (ms\<lparr>paused := b\<rparr>) = unsubscribe i c ms\<lparr>paused := b\<rparr>"
  by (simp add: unsubscribe_def split: option.splits)

lemma perform_paused:
  assumes "ev \<noteq> Pause" and "ev \<noteq> Resume"
  shows "perform t ev (setPaused b S) = map_option (setPaused b) (perform t ev S)"
proof (cases ev)
  case (Create i fresh)
  then show ?thesis by (simp add: setPaused_def create_paused split: prod.splits)
next
  case (Fire n r)
  then show ?thesis by (simp add: setPaused_def simulate_paused Let_def split: prod.splits)
next
  case (Cancel i)
  then show ?thesis by (simp add: setPaused_def cancel_paused split: prod.splits)
next
  case Kill
  then show ?thesis by (simp add: setPaused_def kill_paused)
next
  case (Watch i)
  then show ?thesis by (auto simp: setPaused_def watch_paused split: option.splits)
next
  case (Abort c)
  then show ?thesis by (simp add: setPaused_def unsubscribe_paused)
qed (use assms in simp_all)

lemma exec_paused:
  assumes "snd e \<noteq> Pause" and "snd e \<noteq> Resume"
  shows "exec e (setPaused b S) = map_option (setPaused b) (exec e S)"
proof -
  have "clock (setPaused b S) = clock S" by (simp add: setPaused_def)
  moreover have "setPaused b (S'\<lparr>clock := t\<rparr>) = (setPaused b S')\<lparr>clock := t\<rparr>" for S' t
    by (simp add: setPaused_def)
  ultimately show ?thesis
    using perform_paused[OF assms, of "fst e" b S]
    by (cases "perform (fst e) (snd e) S") (simp_all add: exec_def)
qed

lemma replay_paused:
  assumes "\<forall>e \<in> set tr. snd e \<noteq> Pause \<and> snd e \<noteq> Resume"
  shows "replay tr (setPaused b S) = map_option (setPaused b) (replay tr S)"
  using assms
proof (induction tr arbitrary: S)
  case Nil
  then show ?case by simp
next
  case (Cons e tr)
  then have "exec e (setPaused b S) = map_option (setPaused b) (exec e S)"
    by (simp add: exec_paused)
  with Cons show ?case by (cases "exec e S") simp_all
qed

lemma seen_paused: "seen i (setPaused b S) = seen i S"
  by (simp add: seen_def setPaused_def getIntent_def)

lemma paused_setPaused: "paused (store (setPaused b S)) = b"
  by (simp add: setPaused_def)

lemma exec_Pause_boot: "exec (0, Pause) boot = Some (setPaused True boot)"
  by (simp add: exec_def boot_def setPaused_def pause_def)

lemma fullRun_unpaused: "\<forall>e \<in> set fullRun. snd e \<noteq> Pause \<and> snd e \<noteq> Resume"
  by (simp add: fullRun_def sixFires_def)

lemma firstStep_unpaused: "\<forall>e \<in> set firstStep. snd e \<noteq> Pause \<and> snd e \<noteq> Resume"
  by (simp add: firstStep_def)

lemma success_run:
  "\<exists>S. replay fullRun boot = Some S
       \<and> seen ''a'' S = (Some (COMPLETED, Some 2700, successLog), [])"
  by (simp add: fullRun_def sixFires_def successLog_def server_eval)

lemma first_step_run:
  "\<exists>S. replay firstStep boot = Some S
       \<and> seen ''a'' S = (Some (VALIDATING, None, [''STARTED'', ''STATE_CHANGE'']), [])"
  by (simp add: firstStep_def server_eval)

text \<open>
  Claim C3, as the code has it. \<^verbatim>\<open>pause()\<close> only sets the paused flag and \<^verbatim>\<open>resume()\<close>
  only clears it. No other operation reads or writes the flag: any sequence of creations,
  timer firings of the driver, cancellations, kills, watch requests and aborts does to a
  server whose flag is set to \<open>b\<close> exactly what it does to the same server otherwise, and
  leaves the flag at \<open>b\<close>. So a driver advances through its stages while the flag is set
  as it does when the flag is clear.
\<close>

theorem paused_flag_not_consulted:
  assumes "\<forall>e \<in> set tr. snd e \<noteq> Pause \<and> snd e \<noteq> Resume"
  shows "replay tr (setPaused b S) = map_option (setPaused b) (replay tr S)
       \<and> perform t Pause S = Some (setPaused True S)
       \<and> perform t Resume S = Some (setPaused False S)"
  using replay_paused[OF assms] by (simp add: setPaused_def pause_def resume_def)

theorem paused_flag_not_consulted_witness:
  "filter (\<lambda>e. snd e = Pause \<or> snd e = Resume) fullRun = []
   \<and> (\<exists>S. replay fullRun (setPaused True boot) = Some S
          \<and> paused (store S)
          \<and> seen ''a'' S = (Some (COMPLETED, Some 2700, successLog), []))"
proof -
  obtain S where S: "replay fullRun boot = Some S"
    and s: "seen ''a'' S = (Some (COMPLETED, Some 2700, successLog), [])"
    using success_run by blast
  have "replay fullRun (setPaused True boot) = Some (setPaused True S)"
    using paused_flag_not_consulted[OF fullRun_unpaused, of True boot] S by simp
  moreover have "filter (\<lambda>e. snd e = Pause \<or> snd e = Resume) fullRun = []"
    using fullRun_unpaused by (simp add: filter_empty_conv)
  ultimately show ?thesis
    using s by (simp add: paused_setPaused seen_paused)
qed

text \<open>The claim as the specification states it fails. The server is paused and then the
  intent is created. When the delay of the first stage has elapsed the driver moves the
  intent to \<open>VALIDATING\<close>, and with the six timers fired it is \<open>COMPLETED\<close>; the flag is
  set all along and \<^verbatim>\<open>resume()\<close> was never called.\<close>

theorem paused_driver_advances:
  "replay ((0, Pause) # firstStep) boot \<noteq> None
   \<and> paused (store (the (replay ((0, Pause) # firstStep) boot)))
   \<and> seen ''a'' (the (replay ((0, Pause) # firstStep) boot))
       = (Some (VALIDATING, None, [''STARTED'', ''STATE_CHANGE'']), [])
   \<and> replay ((0, Pause) # fullRun) boot \<noteq> None
   \<and> paused (store (the (replay ((0, Pause) # fullRun) boot)))
   \<and> seen ''a'' (the (replay ((0, Pause) # fullRun) boot))
       = (Some (COMPLETED, Some 2700, successLog), [])"
proof -
  obtain S where S: "replay firstStep boot = Some S"
    and s: "seen ''a'' S = (Some (VALIDATING, None, [''STARTED'', ''STATE_CHANGE'']), [])"
    using first_step_run by blast
  have a: "replay ((0, Pause) # firstStep) boot = Some (setPaused True S)"
    using replay_paused[OF firstStep_unpaused, of True boot] S by (simp add: exec_Pause_boot)
  obtain T where T: "replay fullRun boot = Some T"
    and t: "seen ''a'' T = (Some (COMPLETED, Some 2700, successLog), [])"
    using success_run by blast
  have b: "replay ((0, Pause) # fullRun) boot = Some (setPaused True T)"
    using replay_paused[OF fullRun_unpaused, of True boot] T by (simp add: exec_Pause_boot)
  show ?thesis
    unfolding a b using s t by (simp add: paused_setPaused seen_paused)
qed

subsection \<open>The list query\<close>

text \<open>\<^verbatim>\<open>parseInt\<close> on sample strings: white space of every kind is skipped, a string
  without digits is not a number.\<close>

lemma parseInt_samples:
  "parseInt nbspMinusOne = Num (- 1)"
  "parseInt ([0x2003, 0xFEFF, 0x0A] @ js ''+12px'') = Num 12"
  "parseInt (js ''0x1F'') = Num 31"
  "parseInt (js ''x'') = NaN"
  "parseInt (js ''20'') = Num 20"
  by (simp_all add: parseInt_def nbspMinusOne_def js_def isWhiteSpace_def digitValue_def Let_def)

lemma listIntents_eq:
  "listIntents f ms =
     (js_slice (startIndexOf f) (js_add (startIndexOf f) (limitOf f))
        (sort_key (\<lambda>i. - createdAt i) (filter (matches f) (map_values (intents ms)))),
      if js_lt (js_add (startIndexOf f) (limitOf f))
           (Num (int (length (filter (matches f) (map_values (intents ms))))))
      then Some (js_String (js_add (startIndexOf f) (limitOf f))) else None)"
proof -
  have "(case Option.bind f f_states of
           Some sts \<Rightarrow>
             if sts \<noteq> []
             then filter (\<lambda>i. js (stateName (state i)) \<in> set sts) (map_values (intents ms))
             else map_values (intents ms)
         | None \<Rightarrow> map_values (intents ms))
        = filter (matches f) (map_values (intents ms))"
    by (cases "Option.bind f f_states") (auto simp: matches_def intro!: filter_cong)
  then show ?thesis
    by (simp add: listIntents_def Let_def limitOf_def startIndexOf_def)
qed

lemma listHandler_count:
  "totalCount (listHandler q_limit q_cursor q_states ms) =
     length (fst (listIntents (queryFilters q_limit q_cursor q_states) ms))"
  by (simp add: listHandler_def queryFilters_def Let_def)

lemma slice_length:
  "length (js_slice s e xs) =
     nat ((if toIntegerOrInfinity e < 0 then max (int (length xs) + toIntegerOrInfinity e) 0
           else min (toIntegerOrInfinity e) (int (length xs)))
          - (if toIntegerOrInfinity s < 0 then max (int (length xs) + toIntegerOrInfinity s) 0
             else min (toIntegerOrInfinity s) (int (length xs))))"
  by (auto simp: js_slice_def Let_def min_def max_def)

lemma nat_mono_arith:
  fixes rs re L L' :: int
  assumes "0 \<le> rs" and "L \<le> L'" and "0 \<le> L"
  shows "nat ((if re < 0 then max (L + re) 0 else min re L) - min rs L)
         \<le> nat ((if re < 0 then max (L' + re) 0 else min re L') - min rs L')"
  using assms by (auto simp: min_def max_def)

lemma slice_length_mono:
  assumes "length xs \<le> length ys" and "0 \<le> toIntegerOrInfinity s"
  shows "length (js_slice s e xs) \<le> length (js_slice s e ys)"
  using nat_mono_arith[of "toIntegerOrInfinity s" "int (length xs)" "int (length ys)"
          "toIntegerOrInfinity e"] assms
  by (simp add: slice_length)

lemma slice_length_cong:
  "length xs = length ys \<Longrightarrow> length (js_slice s e xs) = length (js_slice s e ys)"
  by (simp add: slice_length)

text \<open>With a limit that is not negative the slice has at most that many items, whatever
  the start is.\<close>

lemma slice_bound:
  assumes "0 \<le> l"
  shows "length (js_slice s (js_add s (Num l)) xs) \<le> nat l"
proof (cases s)
  case NaN
  then show ?thesis by (simp add: slice_length)
next
  case (Num a)
  then show ?thesis using assms by (auto simp: slice_length min_def max_def)
qed

lemma slice_NaN_end: "js_slice s NaN xs = []"
  by (simp add: js_slice_def Let_def)

lemma js_add_NaN: "js_add s NaN = NaN"
  by (cases s) simp_all

lemma length_filter_map_mono:
  "(\<forall>x \<in> set xs. P x \<longrightarrow> P (g x)) \<Longrightarrow> length (filter P xs) \<le> length (filter P (map g xs))"
  by (induction xs) auto

lemma length_filter_map_same:
  "(\<forall>x \<in> set xs. P (g x) = P x) \<Longrightarrow> length (filter P (map g xs)) = length (filter P xs)"
  by (induction xs) auto

lemma kill_values: "map_values (intents (fst (kill now ms))) = map (killed now) (map_values (intents ms))"
  by (simp add: kill_store map_values_def case_prod_unfold)

lemma queue_loop_terminal:
  "\<forall>i \<in> set is. state i \<in> {COMPLETED, FAILED, CANCELLED} \<Longrightarrow> queue_loop is p e = (p, e)"
  by (induction "is" arbitrary: p e) auto

lemma kill_queue:
  "pendingIntents (getQueueStatus (fst (kill now ms))) = 0
   \<and> executingIntents (getQueueStatus (fst (kill now ms))) = 0"
proof -
  have "queue_loop (map_values (intents (fst (kill now ms)))) 0 0 = (0, 0)"
    unfolding kill_values using killed_terminal by (intro queue_loop_terminal) auto
  then show ?thesis by (simp add: getQueueStatus_def)
qed

lemma not_terminal_cases:
  "s \<notin> set [COMPLETED, FAILED, CANCELLED] \<Longrightarrow> s \<in> set nonTerminal"
  by (cases s) (simp_all add: nonTerminal_def)

text \<open>When the matching intents are the same before and after the kill, so is the length
  of the page.\<close>

lemma kill_list_same:
  assumes "\<And>i. matches f (killed now i) = matches f i"
  shows "length (fst (listIntents f (fst (kill now ms)))) = length (fst (listIntents f ms))"
proof -
  have "length (filter (matches f) (map (killed now) (map_values (intents ms))))
          = length (filter (matches f) (map_values (intents ms)))"
    by (intro length_filter_map_same) (simp add: assms)
  then have "length (sort_key (\<lambda>i. - createdAt i)
                      (filter (matches f) (map_values (intents (fst (kill now ms))))))
             = length (sort_key (\<lambda>i. - createdAt i)
                      (filter (matches f) (map_values (intents ms))))"
    by (simp add: kill_values)
  then show ?thesis
    unfolding listIntents_eq fst_conv by (rule slice_length_cong)
qed

lemma kill_list_cancelled:
  assumes "Option.bind f f_states = Some sts" and "js ''CANCELLED'' \<in> set sts"
    and "0 \<le> toIntegerOrInfinity (startIndexOf f)"
  shows "length (fst (listIntents f ms)) \<le> length (fst (listIntents f (fst (kill now ms))))"
proof -
  have c: "js (stateName CANCELLED) = js ''CANCELLED''" by simp
  have "matches f i \<longrightarrow> matches f (killed now i)" for i
    using assms(1,2) c by (auto simp: matches_def killed_def simp del: stateName.simps)
  then have "length (filter (matches f) (map_values (intents ms)))
               \<le> length (filter (matches f) (map (killed now) (map_values (intents ms))))"
    by (intro length_filter_map_mono) simp
  then have "length (sort_key (\<lambda>i. - createdAt i)
                      (filter (matches f) (map_values (intents ms))))
             \<le> length (sort_key (\<lambda>i. - createdAt i)
                      (filter (matches f) (map_values (intents (fst (kill now ms))))))"
    by (simp add: kill_values)
  then show ?thesis
    unfolding listIntents_eq fst_conv using assms(3) by (rule slice_length_mono)
qed

lemma queryFilters_fields:
  "Option.bind (queryFilters q_limit q_cursor q_states) f_states = map_option split_comma q_states"
  "startIndexOf (queryFilters q_limit q_cursor q_states) =
     (case q_cursor of None \<Rightarrow> Num 0 | Some c \<Rightarrow> if c \<noteq> [] then parseInt c else Num 0)"
  by (simp_all add: queryFilters_def startIndexOf_def)

lemma split_comma_not_Nil: "split_comma p \<noteq> []"
  by (induction p) (auto split: list.splits)

text \<open>A query that names neither \<open>CANCELLED\<close> nor a state that is not terminal matches
  the same intents before and after the kill.\<close>

lemma unnamed_states_same:
  assumes "\<forall>s \<in> set (CANCELLED # nonTerminal). \<not> namesState q_states s"
  shows "matches (queryFilters q_limit q_cursor q_states) (killed now i)
           = matches (queryFilters q_limit q_cursor q_states) i"
proof (cases q_states)
  case None
  then show ?thesis by (simp add: matches_def queryFilters_fields)
next
  case (Some p)
  show ?thesis
  proof (cases "state i \<in> set [COMPLETED, FAILED, CANCELLED]")
    case True
    then show ?thesis by (simp add: killed_def)
  next
    case False
    then have "state i \<in> set nonTerminal" by (rule not_terminal_cases)
    then have "js (stateName (state i)) \<notin> set (split_comma p)"
      and "js (stateName CANCELLED) \<notin> set (split_comma p)"
      using assms Some by (auto simp: namesState_def simp del: stateName.simps)
    then show ?thesis
      using False Some
      by (simp add: matches_def queryFilters_fields killed_def split_comma_not_Nil
          del: stateName.simps)
  qed
qed
text \<open>The pages of the sample queries depend on the states of the stored intents only.\<close>

lemma count_matching:
  "length (filter (matches f) xs) =
     length (filter (\<lambda>s. case Option.bind f f_states of
                            None \<Rightarrow> True
                          | Some sts \<Rightarrow> sts = [] \<or> js (stateName s) \<in> set sts)
              (map state xs))"
  by (induction xs) (simp_all add: matches_def)

lemma handler_count:
  "totalCount (listHandler q_limit q_cursor q_states ms) =
     length (js_slice (startIndexOf (queryFilters q_limit q_cursor q_states))
               (js_add (startIndexOf (queryFilters q_limit q_cursor q_states))
                       (limitOf (queryFilters q_limit q_cursor q_states)))
               (replicate
                  (length (filter (matches (queryFilters q_limit q_cursor q_states))
                             (map_values (intents ms)))) ()))"
  unfolding listHandler_count listIntents_eq fst_conv
  by (rule slice_length_cong) simp

lemma sample_states:
  "map state (map_values (intents store3)) = [PENDING, PENDING, PENDING]"
  "map state (map_values (intents (fst (kill 20 store3)))) = [CANCELLED, CANCELLED, CANCELLED]"
  "map state (map_values (intents storeMixed)) = [CANCELLED, PENDING, PENDING]"
  "map state (map_values (intents (fst (kill 20 storeMixed)))) = [CANCELLED, CANCELLED, CANCELLED]"
  by (simp_all add: store3_def storeMixed_def noStreams_def map_values_def server_eval)

lemma js_eq_iff [simp]: "js a = js b \<longleftrightarrow> a = b"
proof -
  have "inj (of_char :: char \<Rightarrow> nat)" by (rule inj_of_char)
  then show ?thesis by (simp add: js_def inj_map_eq_map)
qed

lemma nbspMinusOne_not_empty: "nbspMinusOne \<noteq> []"
  by (simp add: nbspMinusOne_def)

lemma sample_strings:
  "split_comma (js ''PENDING'') = [js ''PENDING'']"
  "split_comma (js ''CANCELLED'') = [js ''CANCELLED'']"
  "split_comma (js ''CANCELLED,FAILED'') = [js ''CANCELLED'', js ''FAILED'']"
  "parseInt (js ''2'') = Num 2"
  by (simp_all add: js_def parseInt_def isWhiteSpace_def digitValue_def Let_def)

lemmas query_eval =
  handler_count count_matching sample_states sample_strings parseInt_samples
  queryFilters_def startIndexOf_def limitOf_def js_slice_def Let_def

lemma store3_counts:
  "totalCount (listHandler None None None store3) = 3"
  "totalCount (listHandler None None None (fst (kill 20 store3))) = 3"
  "totalCount (listHandler None None (Some (js ''PENDING'')) store3) = 3"
  "totalCount (listHandler None None (Some (js ''PENDING'')) (fst (kill 20 store3))) = 0"
  "totalCount (listHandler None None (Some (js ''CANCELLED,FAILED'')) store3) = 0"
  "totalCount (listHandler None None (Some (js ''CANCELLED,FAILED'')) (fst (kill 20 store3))) = 3"
  "totalCount (listHandler (Some (js ''2'')) (Some nbspMinusOne) (Some (js ''CANCELLED''))
       storeMixed) = 1"
  "totalCount (listHandler (Some (js ''2'')) (Some nbspMinusOne) (Some (js ''CANCELLED''))
       (fst (kill 20 storeMixed))) = 0"
  by (simp_all add: query_eval nbspMinusOne_not_empty)
text \<open>
  Claim C9, as the code has it. After \<^verbatim>\<open>kill\<close>, \<^verbatim>\<open>getQueueStatus\<close> reports no pending and no
  executing intent. A list query whose \<^verbatim>\<open>states\<close> parameter is absent, or names neither
  \<open>CANCELLED\<close> nor a state that is not terminal, reports the same \<open>totalCount\<close> before and
  after the kill, whatever its limit and cursor are. A list query whose \<^verbatim>\<open>states\<close>
  parameter names \<open>CANCELLED\<close>, and whose cursor is absent, empty, not a number or not
  negative, reports after the kill a \<open>totalCount\<close> that is not smaller than before.
\<close>

theorem kill_queue_and_list_count:
  "pendingIntents (getQueueStatus (fst (kill now ms))) = 0
   \<and> executingIntents (getQueueStatus (fst (kill now ms))) = 0
   \<and> ((\<forall>s \<in> set (CANCELLED # nonTerminal). \<not> namesState q_states s) \<longrightarrow>
        totalCount (listHandler q_limit q_cursor q_states (fst (kill now ms)))
          = totalCount (listHandler q_limit q_cursor q_states ms))
   \<and> (namesState q_states CANCELLED
        \<and> (case q_cursor of None \<Rightarrow> True
            | Some c \<Rightarrow> c = [] \<or> 0 \<le> toIntegerOrInfinity (parseInt c)) \<longrightarrow>
        totalCount (listHandler q_limit q_cursor q_states ms)
          \<le> totalCount (listHandler q_limit q_cursor q_states (fst (kill now ms))))"
proof (intro conjI impI)
  show "pendingIntents (getQueueStatus (fst (kill now ms))) = 0"
    and "executingIntents (getQueueStatus (fst (kill now ms))) = 0"
    using kill_queue by simp_all
next
  assume "\<forall>s \<in> set (CANCELLED # nonTerminal). \<not> namesState q_states s"
  then have "matches (queryFilters q_limit q_cursor q_states) (killed now i)
               = matches (queryFilters q_limit q_cursor q_states) i" for i
    by (rule unnamed_states_same)
  then show "totalCount (listHandler q_limit q_cursor q_states (fst (kill now ms)))
               = totalCount (listHandler q_limit q_cursor q_states ms)"
    unfolding listHandler_count by (rule kill_list_same)
next
  assume a: "namesState q_states CANCELLED
        \<and> (case q_cursor of None \<Rightarrow> True
            | Some c \<Rightarrow> c = [] \<or> 0 \<le> toIntegerOrInfinity (parseInt c))"
  then obtain p where p: "q_states = Some p"
    by (cases q_states) (auto simp: namesState_def)
  have 1: "Option.bind (queryFilters q_limit q_cursor q_states) f_states = Some (split_comma p)"
    using p by (simp add: queryFilters_fields)
  have 2: "js ''CANCELLED'' \<in> set (split_comma p)"
    using a p by (simp add: namesState_def)
  have 3: "0 \<le> toIntegerOrInfinity (startIndexOf (queryFilters q_limit q_cursor q_states))"
    using a by (auto simp: queryFilters_fields split: option.splits)
  show "totalCount (listHandler q_limit q_cursor q_states ms)
          \<le> totalCount (listHandler q_limit q_cursor q_states (fst (kill now ms)))"
    unfolding listHandler_count using 1 2 3 by (rule kill_list_cancelled)
qed

lemma sample_names:
  "namesState None s = False"
  "namesState (Some (js ''CANCELLED,FAILED'')) CANCELLED"
  "namesState (Some (js ''FAILED'')) s = (s = FAILED)"
  by (cases s; simp add: namesState_def js_def)+

theorem kill_queue_and_list_count_witness:
  "totalCount (listHandler None None None (fst (kill 20 store3))) = 3
   \<and> totalCount (listHandler None None None store3) = 3
   \<and> namesState (Some (js ''CANCELLED,FAILED'')) CANCELLED
   \<and> totalCount (listHandler None None (Some (js ''CANCELLED,FAILED'')) store3)
        \<le> totalCount (listHandler None None (Some (js ''CANCELLED,FAILED''))
             (fst (kill 20 store3)))
   \<and> totalCount (listHandler None None (Some (js ''CANCELLED,FAILED''))
        (fst (kill 20 store3))) = 3
   \<and> totalCount (listHandler None None (Some (js ''FAILED'')) (fst (kill 20 store3)))
        = totalCount (listHandler None None (Some (js ''FAILED'')) store3)
   \<and> pendingIntents (getQueueStatus (fst (kill 20 store3))) = 0
   \<and> executingIntents (getQueueStatus (fst (kill 20 store3))) = 0"
proof -
  have n: "\<forall>s \<in> set (CANCELLED # nonTerminal). \<not> namesState None s"
    by (simp add: sample_names)
  have f: "\<forall>s \<in> set (CANCELLED # nonTerminal). \<not> namesState (Some (js ''FAILED'')) s"
    by (simp add: sample_names nonTerminal_def)
  from kill_queue_and_list_count[of 20 store3 None None None]
       kill_queue_and_list_count[of 20 store3 "Some (js ''CANCELLED,FAILED'')" None None]
       kill_queue_and_list_count[of 20 store3 "Some (js ''FAILED'')" None None]
       n f sample_names(2)
  show ?thesis by (simp add: store3_counts)
qed

text \<open>The claim as the specification states it fails for a query that filters on a
  state that is not terminal: of the three pending intents the query \<^verbatim>\<open>states=PENDING\<close>
  counts three before the kill and none after. It also fails for a query with a negative
  cursor, which cuts its page from the end of the list: with one cancelled and two
  pending intents the query \<^verbatim>\<open>states=CANCELLED\<close> with limit 2 and the cursor \<^verbatim>\<open>-1\<close> (here
  behind a no-break space, which \<^verbatim>\<open>parseInt\<close> skips) counts one before the kill and none
  after, when three intents match.\<close>

theorem kill_lowers_filtered_count:
  "totalCount (listHandler None None (Some (js ''PENDING'')) store3) = 3
   \<and> totalCount (listHandler None None (Some (js ''PENDING'')) (fst (kill 20 store3))) = 0
   \<and> parseInt nbspMinusOne = Num (- 1)
   \<and> totalCount (listHandler (Some (js ''2'')) (Some nbspMinusOne) (Some (js ''CANCELLED''))
        storeMixed) = 1
   \<and> totalCount (listHandler (Some (js ''2'')) (Some nbspMinusOne) (Some (js ''CANCELLED''))
        (fst (kill 20 storeMixed))) = 0"
  by (simp add: store3_counts parseInt_samples)
lemma slice_take_drop:
  assumes "0 \<le> s" and "0 \<le> l"
  shows "js_slice (Num s) (Num (s + l)) xs = take (nat l) (drop (nat s) xs)"
proof -
  have "take (nat (min (s + l) (int (length xs)) - min s (int (length xs))))
          (drop (nat (min s (int (length xs)))) xs)
        = take (nat l) (drop (nat s) xs)"
  proof (cases "s \<le> int (length xs)")
    case True
    then have "min s (int (length xs)) = s" by simp
    moreover have "take (nat (min (s + l) (int (length xs)) - s)) (drop (nat s) xs)
                     = take (nat l) (drop (nat s) xs)"
    proof (cases "s + l \<le> int (length xs)")
      case True
      then show ?thesis by simp
    next
      case False
      then have "length (drop (nat s) xs) \<le> nat (min (s + l) (int (length xs)) - s)"
        and "length (drop (nat s) xs) \<le> nat l"
        using assms by auto
      then show ?thesis by simp
    qed
    ultimately show ?thesis by simp
  next
    case False
    then show ?thesis using assms by simp
  qed
  then show ?thesis using assms by (simp add: js_slice_def Let_def)
qed

lemma sorted_desc_sort:
  "sorted_wrt (\<lambda>a b. createdAt b \<le> createdAt a) (sort_key (\<lambda>i. - createdAt i) xs)"
proof -
  have "sorted (map (\<lambda>i. - createdAt i) (sort_key (\<lambda>i. - createdAt i) xs))"
    by (rule sorted_sort_key)
  then show ?thesis by (simp add: sorted_map)
qed

lemma sorted_wrt_slice: "sorted_wrt P xs \<Longrightarrow> sorted_wrt P (js_slice s e xs)"
  by (simp add: js_slice_def Let_def sorted_wrt_take sorted_wrt_drop)

lemma set_slice: "set (js_slice s e xs) \<subseteq> set xs"
  unfolding js_slice_def Let_def by (meson set_take_subset set_drop_subset subset_trans)

text \<open>Every page that \<^verbatim>\<open>listIntents\<close> returns is sorted by \<open>createdAt\<close>, newest first, and
  consists of intents of the store that match the filter.\<close>

lemma list_page_sorted:
  "sorted_wrt (\<lambda>a b. createdAt b \<le> createdAt a) (fst (listIntents f ms))"
  by (simp add: listIntents_eq sorted_wrt_slice sorted_desc_sort)

lemma list_page_matching:
  "set (fst (listIntents f ms)) \<subseteq> {i \<in> set (map_values (intents ms)). matches f i}"
  using set_slice[of "startIndexOf f" "js_add (startIndexOf f) (limitOf f)"
          "sort_key (\<lambda>i. - createdAt i) (filter (matches f) (map_values (intents ms)))"]
  by (auto simp: listIntents_eq)

text \<open>
  Claim C10, as the code has it. For every call the page is sorted by \<open>createdAt\<close>,
  newest first, and holds matching intents only. When the limit is a number \<open>l \<ge> 0\<close> (20
  when none is supplied) the page has at most \<open>l\<close> items, whatever the cursor is. When in
  addition the cursor is absent, empty or parses to a number \<open>s \<ge> 0\<close>, the page is the
  part of the matching intents, sorted newest first, that starts at position \<open>s\<close> and has
  at most \<open>l\<close> items, and \<open>nextCursor\<close> is present exactly when matching intents remain
  behind that part, that is, when \<open>s + l\<close> is less than the number of matching intents;
  it is then the decimal string of \<open>s + l\<close>. When the limit is \<^verbatim>\<open>NaN\<close>, or the cursor is
  not empty and parses to \<^verbatim>\<open>NaN\<close>, the page is empty and there is no \<open>nextCursor\<close>.
\<close>

theorem list_page:
  "sorted_wrt (\<lambda>a b. createdAt b \<le> createdAt a) (fst (listIntents f ms))
   \<and> set (fst (listIntents f ms)) \<subseteq> {i \<in> set (map_values (intents ms)). matches f i}
   \<and> ((case Option.bind f f_limit of None \<Rightarrow> l = 20 | Some x \<Rightarrow> x = Num l \<and> 0 \<le> l) \<longrightarrow>
        length (fst (listIntents f ms)) \<le> nat l
        \<and> ((case Option.bind f f_cursor of
               None \<Rightarrow> s = 0
             | Some c \<Rightarrow> if c = [] then s = 0 else parseInt c = Num s \<and> 0 \<le> s) \<longrightarrow>
             fst (listIntents f ms) =
               take (nat l) (drop (nat s)
                 (sort_key (\<lambda>i. - createdAt i)
                    (filter (matches f) (map_values (intents ms)))))
             \<and> (snd (listIntents f ms) \<noteq> None \<longleftrightarrow>
                  drop (nat s + nat l)
                    (sort_key (\<lambda>i. - createdAt i)
                       (filter (matches f) (map_values (intents ms)))) \<noteq> [])
             \<and> (snd (listIntents f ms) \<noteq> None \<longrightarrow>
                  snd (listIntents f ms) = Some (js_String (Num (s + l))))))
   \<and> (Option.bind f f_limit = Some NaN
        \<or> (case Option.bind f f_cursor of None \<Rightarrow> False
            | Some c \<Rightarrow> c \<noteq> [] \<and> parseInt c = NaN) \<longrightarrow>
        fst (listIntents f ms) = [] \<and> snd (listIntents f ms) = None)"
proof (intro conjI impI)
  show "sorted_wrt (\<lambda>a b. createdAt b \<le> createdAt a) (fst (listIntents f ms))"
    by (rule list_page_sorted)
  show "set (fst (listIntents f ms)) \<subseteq> {i \<in> set (map_values (intents ms)). matches f i}"
    by (rule list_page_matching)
next
  assume "case Option.bind f f_limit of None \<Rightarrow> l = 20 | Some x \<Rightarrow> x = Num l \<and> 0 \<le> l"
  then have lim: "limitOf f = Num l" and l: "0 \<le> l"
    by (auto simp: limitOf_def split: option.splits)
  show "length (fst (listIntents f ms)) \<le> nat l"
    using slice_bound[OF l] by (simp add: listIntents_eq lim)
next
  let ?sorted = "sort_key (\<lambda>i. - createdAt i) (filter (matches f) (map_values (intents ms)))"
  assume "case Option.bind f f_limit of None \<Rightarrow> l = 20 | Some x \<Rightarrow> x = Num l \<and> 0 \<le> l"
  then have lim: "limitOf f = Num l" and l: "0 \<le> l"
    by (auto simp: limitOf_def split: option.splits)
  assume "case Option.bind f f_cursor of
            None \<Rightarrow> s = 0
          | Some c \<Rightarrow> if c = [] then s = 0 else parseInt c = Num s \<and> 0 \<le> s"
  then have start: "startIndexOf f = Num s" and s: "0 \<le> s"
    by (auto simp: startIndexOf_def split: option.splits if_splits)
  show "fst (listIntents f ms) = take (nat l) (drop (nat s) ?sorted)"
    by (simp add: listIntents_eq lim start slice_take_drop[OF s l])
  have cur: "snd (listIntents f ms) =
               (if s + l < int (length ?sorted) then Some (js_String (Num (s + l))) else None)"
    by (simp add: listIntents_eq lim start)
  have more: "(s + l < int (length ?sorted)) = (drop (nat s + nat l) ?sorted \<noteq> [])"
    using s l by auto
  show "snd (listIntents f ms) \<noteq> None \<longleftrightarrow> drop (nat s + nat l) ?sorted \<noteq> []"
    using cur more by auto
  show "snd (listIntents f ms) = Some (js_String (Num (s + l)))"
    if "snd (listIntents f ms) \<noteq> None"
    using that cur by (auto split: if_splits)
next
  assume a: "Option.bind f f_limit = Some NaN
        \<or> (case Option.bind f f_cursor of None \<Rightarrow> False
            | Some c \<Rightarrow> c \<noteq> [] \<and> parseInt c = NaN)"
  have "js_add (startIndexOf f) (limitOf f) = NaN"
    using a by (auto simp: limitOf_def startIndexOf_def js_add_NaN split: option.splits)
  then show "fst (listIntents f ms) = []" and "snd (listIntents f ms) = None"
    by (simp_all add: listIntents_eq slice_NaN_end)
qed
lemma store3_values:
  "map_values (intents store3) =
     [\<lparr>id' = ''a'', intent = payload, state = PENDING,
       events = [\<lparr>stage = ''SUBMISSION'', type = ''STARTED'',
                  message = ''Intent received'', timestamp = 0\<rparr>],
       createdAt = 0, completedAt = None, outcome = None\<rparr>,
      \<lparr>id' = ''b'', intent = payload\<lparr>intent_id := Some ''b''\<rparr>, state = PENDING,
       events = [\<lparr>stage = ''SUBMISSION'', type = ''STARTED'',
                  message = ''Intent received'', timestamp = 5\<rparr>],
       createdAt = 5, completedAt = None, outcome = None\<rparr>,
      \<lparr>id' = ''c'', intent = payload\<lparr>intent_id := Some ''c''\<rparr>, state = PENDING,
       events = [\<lparr>stage = ''SUBMISSION'', type = ''STARTED'',
                  message = ''Intent received'', timestamp = 7\<rparr>],
       createdAt = 7, completedAt = None, outcome = None\<rparr>]"
  by (simp add: store3_def map_values_def server_eval)

lemma sample_cursors:
  "js_String (Num 2) = js ''2''"
  "js_String (Num (- 1)) = js ''-1''"
  "js_String (Num (- 4)) = js ''-4''"
  "parseInt (js ''-5'') = Num (- 5)"
  "parseInt (js ''-1'') = Num (- 1)"
  "parseInt (0xA0 # js ''1'') = Num 1"
  "js ''-5'' \<noteq> []"
  "js ''x'' \<noteq> []"
  by (simp_all add: showNat.simps js_def parseInt_def isWhiteSpace_def digitValue_def Let_def)

lemma map_values_Nil: "map_values [] = []"
  by (simp add: map_values_def)

lemmas page_eval =
  listIntents_eq matches_def startIndexOf_def limitOf_def js_slice_def Let_def
  store3_values map_values_Nil sample_cursors parseInt_samples

lemma store3_pages:
  "map id' (fst (listIntents firstTwo store3)) = [''c'', ''b'']"
  "snd (listIntents firstTwo store3) = Some (js ''2'')"
  "map id' (fst (listIntents minusOne store3)) = [''c'', ''b'']"
  "snd (listIntents minusOne store3) = Some (js ''-1'')"
  "snd (listIntents minusOne emptyState) = Some (js ''-1'')"
  "listIntents fromEnd emptyState = ([], Some (js ''-4''))"
  "listIntents notNumber store3 = ([], None)"
  "length (filter (matches notNumber) (map_values (intents store3))) = 3"
  "totalCount (listHandler (Some (js ''-1'')) None None store3) = 2"
  by (simp_all add: page_eval firstTwo_def minusOne_def fromEnd_def notNumber_def
      emptyState_def query_eval del: js_String.simps)

text \<open>A cursor written behind a no-break space is read as the number it holds: with
  \<^verbatim>\<open>limit = 1\<close> the cursor \<^verbatim>\<open>1\<close> behind U+00A0 selects the second newest intent, and the
  next page starts at \<^verbatim>\<open>2\<close>.\<close>

lemma nbsp_cursor_page:
  "map id' (fst (listIntents
      (Some \<lparr>f_states = None, f_limit = Some (Num 1), f_cursor = Some (0xA0 # js ''1'')\<rparr>)
      store3)) = [''b'']"
  "snd (listIntents
      (Some \<lparr>f_states = None, f_limit = Some (Num 1), f_cursor = Some (0xA0 # js ''1'')\<rparr>)
      store3) = Some (js ''2'')"
  by (simp_all add: page_eval del: js_String.simps)

theorem list_page_witness:
  "(case Option.bind firstTwo f_limit of None \<Rightarrow> (2::int) = 20 | Some x \<Rightarrow> x = Num 2 \<and> (0::int) \<le> 2)
   \<and> (case Option.bind firstTwo f_cursor of
          None \<Rightarrow> (0::int) = 0
        | Some c \<Rightarrow> if c = [] then (0::int) = 0 else parseInt c = Num 0 \<and> (0::int) \<le> 0)
   \<and> sorted_wrt (\<lambda>a b. createdAt b \<le> createdAt a) (fst (listIntents firstTwo store3))
   \<and> length (fst (listIntents firstTwo store3)) \<le> 2
   \<and> map id' (fst (listIntents firstTwo store3)) = [''c'', ''b'']
   \<and> snd (listIntents firstTwo store3) = Some (js ''2'')
   \<and> drop 2 (sort_key (\<lambda>i. - createdAt i)
                (filter (matches firstTwo) (map_values (intents store3)))) \<noteq> []
   \<and> Option.bind (Some \<lparr>f_states = None, f_limit = Some NaN, f_cursor = None\<rparr>) f_limit
       = Some NaN
   \<and> listIntents (Some \<lparr>f_states = None, f_limit = Some NaN, f_cursor = None\<rparr>) store3
       = ([], None)"
proof -
  have h1: "case Option.bind firstTwo f_limit of
              None \<Rightarrow> (2::int) = 20 | Some x \<Rightarrow> x = Num 2 \<and> (0::int) \<le> 2"
    by (simp add: firstTwo_def)
  have h2: "case Option.bind firstTwo f_cursor of
              None \<Rightarrow> (0::int) = 0
            | Some c \<Rightarrow> if c = [] then (0::int) = 0 else parseInt c = Num 0 \<and> (0::int) \<le> 0"
    by (simp add: firstTwo_def)
  note T = list_page[where f = firstTwo and ms = store3 and l = 2 and s = 0]
  have s: "sorted_wrt (\<lambda>a b. createdAt b \<le> createdAt a) (fst (listIntents firstTwo store3))"
    using T by blast
  have a: "length (fst (listIntents firstTwo store3)) \<le> 2"
    using T h1 by simp
  have "snd (listIntents firstTwo store3) \<noteq> None"
    by (simp add: store3_pages)
  then have b: "drop 2 (sort_key (\<lambda>i. - createdAt i)
                  (filter (matches firstTwo) (map_values (intents store3)))) \<noteq> []"
    using T h1 h2 by simp
  have h3: "Option.bind (Some \<lparr>f_states = None, f_limit = Some NaN, f_cursor = None\<rparr>) f_limit
              = Some NaN"
    by simp
  have c: "listIntents (Some \<lparr>f_states = None, f_limit = Some NaN, f_cursor = None\<rparr>) store3
             = ([], None)"
    using list_page[where f = "Some \<lparr>f_states = None, f_limit = Some NaN, f_cursor = None\<rparr>"
        and ms = store3 and l = 0 and s = 0] h3
    by (simp add: prod_eq_iff)
  show ?thesis
    using h1 h2 s a b c h3 store3_pages(1,2) by blast
qed

text \<open>The claim as the specification states it fails where the limit or the cursor is
  negative or not a number. With \<^verbatim>\<open>limit = -1\<close> the slice ends one item before the end of
  the list, so the page holds two of the three intents, which is more than the limit, and
  on the empty store a \<open>nextCursor\<close> is returned although no intent remains. With the
  cursor \<^verbatim>\<open>-5\<close> and \<^verbatim>\<open>limit = 1\<close> the empty store returns the \<open>nextCursor\<close> \<^verbatim>\<open>-4\<close>. With the
  cursor \<^verbatim>\<open>x\<close>, which is not a number, the page is empty and there is no \<open>nextCursor\<close>
  although three intents match and none of them has been returned.\<close>

theorem negative_limit_page:
  "length (fst (listIntents minusOne store3)) = 2
   \<and> \<not> int (length (fst (listIntents minusOne store3))) \<le> - 1
   \<and> totalCount (listHandler (Some (js ''-1'')) None None store3) = 2
   \<and> map_values (intents emptyState) = []
   \<and> snd (listIntents minusOne emptyState) = Some (js ''-1'')
   \<and> listIntents fromEnd emptyState = ([], Some (js ''-4''))
   \<and> listIntents notNumber store3 = ([], None)
   \<and> length (filter (matches notNumber) (map_values (intents store3))) = 3"
proof -
  have len: "length (fst (listIntents minusOne store3)) = 2"
    using arg_cong[OF store3_pages(3), of length] by simp
  have empty: "map_values (intents emptyState) = []"
    by (simp add: emptyState_def map_values_Nil)
  show ?thesis
    using len empty store3_pages(5-9) by simp
qed

subsection \<open>The watch stream\<close>

lemma forEach_sse:
  "distinct cbs \<Longrightarrow>
   forEach (\<lambda>cb. sseCallback cb event) cbs w =
     Returned () (\<lambda>c. if c \<in> set cbs then w c @ terminalMessages event else w c)"
proof (induction cbs arbitrary: w)
  case Nil
  then show ?case by simp
next
  case (Cons c cbs)
  then show ?case
    by (auto simp: sseCallback_def terminalMessages_def fun_eq_iff)
qed

text \<open>A notification reaches the stream of every subscriber of the intent, followed by
  \<^verbatim>\<open>[DONE]\<close> when it carries a terminal state, and the stream of nobody else.\<close>

lemma sse_delivery:
  assumes "map_get (intentWatchers ms) i = Some cbs" and "distinct cbs"
  shows "notifyWatchers sseCallback ms i event w =
           Returned () (\<lambda>c. if c \<in> set cbs then w c @ terminalMessages event else w c)"
  using assms by (simp add: notifyWatchers_def forEach_sse)

text \<open>A watch request for an intent in a terminal state writes the latest event and
  \<^verbatim>\<open>[DONE]\<close> and registers nothing; for any other intent it writes the latest event and
  registers its callback.\<close>

lemma watch_terminal:
  assumes "getIntent ms i = Some rec" and "state rec \<in> {COMPLETED, FAILED, CANCELLED}"
  shows "watchHandler i c now ms w =
           Some (ms, w(c := w c @ [Data \<lparr>n_intentId = i, n_state = state rec,
                                           n_event = last_elem (events rec), n_timestamp = now\<rparr>,
                                    Done]))"
  using assms by (auto simp: watchHandler_def Let_def)

lemma watch_live:
  assumes "getIntent ms i = Some rec" and "state rec \<notin> {COMPLETED, FAILED, CANCELLED}"
  shows "watchHandler i c now ms w =
           Some (watchIntent i c ms,
                 w(c := w c @ [Data \<lparr>n_intentId = i, n_state = state rec,
                                       n_event = last_elem (events rec), n_timestamp = now\<rparr>]))"
  using assms by (auto simp: watchHandler_def Let_def)

text \<open>
  Claim C7, at the input where the code departs from it. A client creates intent \<open>''a''\<close>
  and opens its watch stream while the intent is \<open>PENDING\<close>; the stream holds the first
  message. \<^verbatim>\<open>kill\<close> at time 20 takes the intent to the terminal state \<open>CANCELLED\<close>. When
  the timer of the driver fires at time 200 the driver finds the intent cancelled and
  returns. The stream still holds the first message only: the subscriber has received
  neither the transition nor \<^verbatim>\<open>[DONE]\<close>, and no driver is left to send them. The same
  stream, when the intent is cancelled with \<^verbatim>\<open>cancelIntent\<close> or runs to completion, ends
  with the terminal message and \<^verbatim>\<open>[DONE]\<close>.
\<close>

theorem killed_stream_never_ends:
  "map_option (seen ''a'') (replay (watched @ [(20, Kill), (200, Fire 0 0.5)]) boot)
     = Some (Some (CANCELLED, Some 20, [''STARTED'']), [Some PENDING])
   \<and> map_option (map t_live \<circ> tasks) (replay (watched @ [(20, Kill), (200, Fire 0 0.5)]) boot)
     = Some [False]
   \<and> map_option (snd \<circ> seen ''a'') (replay (watched @ sixFires) boot)
     = Some [Some PENDING, Some VALIDATING, Some PLANNING, Some SIMULATING, Some SUBMITTING,
             Some CONFIRMING, Some VERIFYING, Some COMPLETED, None]"
  by (simp add: watched_def sixFires_def server_eval)

subsection \<open>The success path\<close>

lemma stage_on_path: "k < 6 \<Longrightarrow> s_state (stages ! k) = successPath ! Suc k"
proof -
  assume "k < 6"
  then have "k \<in> {0, 1, 2, 3, 4, 5}" by auto
  then show ?thesis by (auto simp: stages_def successPath_def)
qed

lemma seenStates_Suc:
  "Suc k < 6 \<Longrightarrow> seenStates (Suc k) = seenStates k @ [successPath ! Suc k]"
proof -
  assume "Suc k < 6"
  then have "k \<in> {0, 1, 2, 3, 4}" by auto
  then show ?thesis by (auto simp: seenStates_def successPath_def)
qed

lemma seenStates_6: "seenStates 6 = seenStates 5 @ [VERIFYING, COMPLETED]"
  by (simp add: seenStates_def successPath_def)

lemma seenStates_0: "seenStates 0 = [PENDING]"
  by (simp add: seenStates_def successPath_def)

lemma last_seenStates: "k < 6 \<Longrightarrow> last (seenStates k) = successPath ! k"
proof -
  assume "k < 6"
  then have "k \<in> {0, 1, 2, 3, 4, 5}" by auto
  then show ?thesis by (auto simp: seenStates_def successPath_def)
qed

lemma path_not_cancelled: "k < 6 \<Longrightarrow> successPath ! k \<noteq> CANCELLED"
proof -
  assume "k < 6"
  then have "k \<in> {0, 1, 2, 3, 4, 5}" by auto
  then show ?thesis by (auto simp: successPath_def)
qed

lemma progress_created: "progress 0 (snd (createIntent i fresh now ms))"
  by (simp add: progress_def observed_def createIntent_def Let_def seenStates_0 eventState_final)

lemma progress_change:
  assumes "progress k rec" and "Suc k < 6"
  shows "progress (Suc k)
           (rec\<lparr>state := s_state (stages ! k),
                 events := events rec @
                   [\<lparr>stage = stateName (s_state (stages ! k)), type = ''STATE_CHANGE'',
                     message = m, timestamp = t\<rparr>]\<rparr>)"
  using assms
  by (simp add: progress_def observed_def seenStates_Suc eventState_change stage_on_path)

lemma progress_finish:
  assumes "progress 5 rec"
  shows "progress 6
           (rec\<lparr>state := COMPLETED, completedAt := Some now,
                 outcome := Some \<lparr>success = True, actualOutput = ao, actualFees = af,
                                  actualSlippageBps = sl, transactionId = tx\<rparr>,
                 events := (events rec @
                   [\<lparr>stage = stateName (s_state (stages ! 5)), type = ''STATE_CHANGE'',
                     message = m, timestamp = t\<rparr>]) @
                   [\<lparr>stage = ''VERIFICATION'', type = ''COMPLETED'',
                     message = m', timestamp = t'\<rparr>]\<rparr>)"
proof -
  have "s_state (stages ! 5) = VERIFYING" by (simp add: stages_def)
  then show ?thesis
    using assms eventState_change[of VERIFYING m t]
    by (simp add: progress_def observed_def seenStates_6 eventState_final)
qed

text \<open>One firing of the driver of an intent on the path, without injected failure,
  takes the intent one step further; the sixth one completes it and ends the driver.\<close>

lemma drive_on_path:
  assumes rec: "getIntent ms a = Some rec" and p: "progress k rec" and k: "k < 6"
    and calm: "\<not> (r < 0.05 \<and> s_state (stages ! k) \<noteq> VALIDATING)"
  shows "\<exists>ms' d rec'. simulateExecution sseCallback a k r now ms w = (ms', d)
           \<and> getIntent ms' a = Some rec' \<and> progress (Suc k) rec'
           \<and> (if Suc k < 6 then \<exists>w'. d = Await (Suc k) w' else \<exists>w'. d = Resolved w')"
proof -
  let ?rec1 = "rec\<lparr>state := s_state (stages ! k),
                    events := events rec @
                      [\<lparr>stage = stateName (s_state (stages ! k)), type = ''STATE_CHANGE'',
                        message = s_message (stages ! k), timestamp = now\<rparr>]\<rparr>"
  let ?ms1 = "ms\<lparr>intents := map_set a ?rec1 (intents ms)\<rparr>"
  have live: "state rec \<noteq> CANCELLED"
    using p k by (simp add: progress_def last_seenStates path_not_cancelled)
  obtain w1 where n1:
    "notifyWatchers sseCallback ?ms1 a
       \<lparr>n_intentId = a, n_state = s_state (stages ! k),
        n_event = last_elem (events ?rec1), n_timestamp = now\<rparr> w = Returned () w1"
    using notify_sse_returns by blast
  have get: "map_get (intents ms) a = Some rec" using rec by (simp add: getIntent_def)
  show ?thesis
  proof (cases "Suc k < 6")
    case True
    have "simulateExecution sseCallback a k r now ms w = (?ms1, Await (Suc k) w1)"
      using get live calm n1 True by (auto simp add: simulateExecution_def Let_def)
    moreover have "getIntent ?ms1 a = Some ?rec1" by (simp add: getIntent_def)
    moreover have "progress (Suc k) ?rec1" using p True by (rule progress_change)
    ultimately show ?thesis using True by simp
  next
    case False
    with k have k5: "k = 5" by simp
    let ?rec2 = "?rec1\<lparr>state := COMPLETED, completedAt := Some now,
                   outcome := Some \<lparr>success = True,
                                    actualOutput = Some \<lparr>asset = output' (intent ?rec1),
                                                         amount = ''526180000000''\<rparr>,
                                    actualFees = ''5000'', actualSlippageBps = 25,
                                    transactionId = Some (''mock-tx-'' @ take 8 a)\<rparr>,
                   events := events ?rec1 @
                     [\<lparr>stage = ''VERIFICATION'', type = ''COMPLETED'',
                       message = ''Execution completed successfully'', timestamp = now\<rparr>]\<rparr>"
    let ?ms2 = "?ms1\<lparr>intents := map_set a ?rec2 (intents ?ms1)\<rparr>"
    obtain w2 where n2:
      "notifyWatchers sseCallback ?ms2 a
         \<lparr>n_intentId = a, n_state = COMPLETED,
          n_event = last_elem (events ?rec2), n_timestamp = now\<rparr> w1 = Returned () w2"
      using notify_sse_returns by blast
    have verifying: "s_state (stages ! k) \<noteq> CANCELLED"
      using k5 by (simp add: stages_def)
    have "completeExecution sseCallback a now ?ms1 w1 = (?ms2, Resolved w2)"
      using n2 verifying by (simp add: completeExecution_def Let_def)
    then have "simulateExecution sseCallback a k r now ms w = (?ms2, Resolved w2)"
      using get live calm n1 False by (auto simp add: simulateExecution_def Let_def)
    moreover have "getIntent ?ms2 a = Some ?rec2" by (simp add: getIntent_def)
    moreover have "progress 6 ?rec2"
      using p k5 eventState_change[of VERIFYING "s_message (stages ! 5)" now]
      by (simp add: progress_def observed_def seenStates_6 eventState_final stages_def)
    ultimately show ?thesis using k5 by simp
  qed
qed

text \<open>Operations on other intents leave the record of an intent as it is.\<close>

lemma create_frame:
  "createdId i fresh \<noteq> a \<Longrightarrow> getIntent (fst (createIntent i fresh now ms)) a = getIntent ms a"
  by (simp add: createIntent_def createdId_def Let_def getIntent_def)

lemma cancel_frame:
  "i \<noteq> a \<Longrightarrow> getIntent (fst (cancelIntent call i now ms w)) a = getIntent ms a"
  by (simp add: cancelIntent_def Let_def getIntent_def split: option.splits completion.splits)

lemma complete_frame:
  "i \<noteq> a \<Longrightarrow> getIntent (fst (completeExecution call i now ms w)) a = getIntent ms a"
  by (simp add: completeExecution_def Let_def getIntent_def split: option.splits completion.splits)

lemma simulate_frame:
  assumes "i \<noteq> a"
  shows "getIntent (fst (simulateExecution call i k r now ms w)) a = getIntent ms a"
proof -
  have "getIntent (fst (completeExecution call i now (ms\<lparr>intents := map_set i x (intents ms)\<rparr>) w')) a
          = getIntent ms a" for x w'
    using complete_frame[OF assms, of call now "ms\<lparr>intents := map_set i x (intents ms)\<rparr>" w'] assms
    by (simp add: getIntent_def)
  then show ?thesis
    using assms
    by (simp add: simulateExecution_def Let_def getIntent_def split: option.splits completion.splits)
qed

lemma watch_frame:
  "watchHandler i c now ms w = Some (ms', w') \<Longrightarrow> getIntent ms' a = getIntent ms a"
  by (auto simp: watchHandler_def watchIntent_def Let_def getIntent_def
      split: option.splits if_splits)

lemma unsubscribe_frame: "getIntent (unsubscribe i c ms) a = getIntent ms a"
  by (simp add: unsubscribe_def getIntent_def split: option.splits)

lemma settle_id: "t_id (settle t now d) = t_id t"
  by (cases d) (simp_all add: settle_def)

lemma created_id: "id' (snd (createIntent i fresh now ms)) = createdId i fresh"
  by (simp add: createIntent_def createdId_def Let_def)

lemma onPath_clock: "onPath a n k (S\<lparr>clock := t\<rparr>) = onPath a n k S"
  by (simp add: onPath_def)

lemma onPath_store:
  assumes "onPath a n k S" and "getIntent ms' a = getIntent (store S) a"
  shows "onPath a n k (S\<lparr>store := ms'\<rparr>)"
  using assms by (simp add: onPath_def)

lemma onPath_store_streams:
  assumes "onPath a n k S" and "getIntent ms' a = getIntent (store S) a"
  shows "onPath a n k (S\<lparr>store := ms', streams := w\<rparr>)"
  using assms by (simp add: onPath_def)

lemma onPath_parts:
  assumes "onPath a n k S"
  shows "k \<le> 6" and "n < length (tasks S)" and "t_id (tasks S ! n) = a"
    and "t_live (tasks S ! n) = (k < 6)" and "k < 6 \<longrightarrow> t_stage (tasks S ! n) = k"
    and "\<And>m. m < length (tasks S) \<Longrightarrow> m \<noteq> n \<Longrightarrow> t_id (tasks S ! m) = a
           \<Longrightarrow> \<not> t_live (tasks S ! m)"
    and "\<exists>rec. getIntent (store S) a = Some rec \<and> progress k rec"
  using assms by (simp_all add: onPath_def)

lemma create_on_path:
  assumes "onPath a n k S" and "createdId i fresh \<noteq> a"
    and "perform t (Create i fresh) S = Some S'"
  shows "onPath a n k S'"
proof -
  let ?c = "createIntent i fresh t (store S)"
  let ?new = "\<lparr>t_id = id' (snd ?c), t_stage = 0, t_wake = t + delay (stages ! 0), t_live = True\<rparr>"
  note inv = onPath_parts[OF assms(1)]
  have S': "S' = S\<lparr>store := fst ?c, tasks := tasks S @ [?new]\<rparr>"
    using assms(3) by (simp add: case_prod_unfold Let_def)
  have T: "tasks S' = tasks S @ [?new]" and St: "store S' = fst ?c"
    by (simp_all add: S')
  have old: "tasks S' ! m = tasks S ! m" if "m < length (tasks S)" for m
    using that by (simp add: T nth_append)
  have new: "t_id (tasks S' ! length (tasks S)) \<noteq> a"
    using assms(2) by (simp add: T created_id)
  have others: "\<not> t_live (tasks S' ! m)"
    if "m < length (tasks S')" and "m \<noteq> n" and "t_id (tasks S' ! m) = a" for m
  proof (cases "m < length (tasks S)")
    case True
    then show ?thesis using that inv(6)[of m] by (simp add: old)
  next
    case False
    then have "m = length (tasks S)" using that(1) by (simp add: T)
    then show ?thesis using new that(3) by simp
  qed
  have rec: "\<exists>rec. getIntent (store S') a = Some rec \<and> progress k rec"
    using inv(7) create_frame[OF assms(2), of t "store S"] by (simp add: St)
  have len: "n < length (tasks S')" using inv(2) by (simp add: T)
  show ?thesis
    unfolding onPath_def
    using inv(1,3,4,5) len old[OF inv(2)] others rec by simp
qed

lemma fire_other_on_path:
  assumes "onPath a n k S" and "m \<noteq> n" and "perform t (Fire m r) S = Some S'"
  shows "onPath a n k S'"
proof -
  let ?t = "tasks S ! m"
  let ?r = "simulateExecution sseCallback (t_id ?t) (t_stage ?t) r t (store S) (streams S)"
  have en: "m < length (tasks S)" "t_live ?t"
    using assms(3) by (auto split: if_splits)
  then have S': "S' = S\<lparr>store := fst ?r, streams := world_of (snd ?r),
                         tasks := (tasks S)[m := settle ?t t (snd ?r)]\<rparr>"
    using assms(3) by (auto simp: Let_def case_prod_unfold split: if_splits)
  have ida: "t_id ?t \<noteq> a"
    using assms(1,2) en by (auto simp: onPath_def)
  have fr: "getIntent (fst ?r) a = getIntent (store S) a"
    using ida by (rule simulate_frame)
  have nth: "(tasks S)[m := settle ?t t (snd ?r)] ! j =
               (if j = m then settle ?t t (snd ?r) else tasks S ! j)"
    if "j < length (tasks S)" for j
    using that by (simp add: nth_list_update)
  show ?thesis
    using assms(1,2) fr ida unfolding S' onPath_def
    by (auto simp: nth settle_id)
qed

lemma fire_own_on_path:
  assumes "onPath a n k S" and "perform t (Fire n r) S = Some S'"
    and "\<not> (r < 0.05 \<and> s_state (stages ! k) \<noteq> VALIDATING)"
  shows "onPath a n (Suc k) S'"
proof -
  let ?t = "tasks S ! n"
  let ?r = "simulateExecution sseCallback (t_id ?t) (t_stage ?t) r t (store S) (streams S)"
  have en: "n < length (tasks S)" "t_live ?t"
    using assms(2) by (auto split: if_splits)
  then have S': "S' = S\<lparr>store := fst ?r, streams := world_of (snd ?r),
                         tasks := (tasks S)[n := settle ?t t (snd ?r)]\<rparr>"
    using assms(2) by (auto simp: Let_def case_prod_unfold split: if_splits)
  have k: "k < 6" and st: "t_stage ?t = k" and ida: "t_id ?t = a"
    using assms(1) en by (auto simp: onPath_def)
  obtain rec where rec: "getIntent (store S) a = Some rec" and p: "progress k rec"
    using assms(1) by (auto simp: onPath_def)
  obtain ms' d rec' where sim: "simulateExecution sseCallback a k r t (store S) (streams S) = (ms', d)"
    and rec': "getIntent ms' a = Some rec'" and p': "progress (Suc k) rec'"
    and d: "if Suc k < 6 then \<exists>w'. d = Await (Suc k) w' else \<exists>w'. d = Resolved w'"
    using drive_on_path[OF rec p k assms(3)] by blast
  have r: "?r = (ms', d)" using sim st ida by simp
  have task: "t_id (settle ?t t d) = a"
    "t_live (settle ?t t d) = (Suc k < 6)"
    "Suc k < 6 \<longrightarrow> t_stage (settle ?t t d) = Suc k"
    using d ida en by (auto simp: settle_def split: if_splits)
  have nth: "(tasks S)[n := settle ?t t d] ! j =
               (if j = n then settle ?t t d else tasks S ! j)"
    if "j < length (tasks S)" for j
    using that by (simp add: nth_list_update)
  show ?thesis
    using assms(1) k rec' p' task unfolding S' r onPath_def
    by (auto simp: nth)
qed
lemma perform_on_path:
  assumes "onPath a n k S" and "perform t ev S = Some S'" and "calm a n k ev"
  shows "onPath a n (bump n ev k) S'"
proof (cases ev)
  case (Create i fresh)
  then show ?thesis using assms create_on_path by simp
next
  case (Fire m r)
  show ?thesis
  proof (cases "m = n")
    case True
    then show ?thesis using assms Fire fire_own_on_path[of a n k S t r S'] by simp
  next
    case False
    then show ?thesis using assms Fire fire_other_on_path[of a n k S m t r S'] by simp
  qed
next
  case (Cancel i)
  then have "i \<noteq> a" using assms(3) by simp
  then have "getIntent (fst (cancelIntent sseCallback i t (store S) (streams S))) a
               = getIntent (store S) a"
    by (rule cancel_frame)
  then show ?thesis
    using assms(1,2) Cancel onPath_store_streams by (auto simp: case_prod_unfold Let_def)
next
  case Kill
  then show ?thesis using assms(3) by simp
next
  case Pause
  have "getIntent (pause (store S)) a = getIntent (store S) a"
    by (simp add: pause_def getIntent_def)
  then show ?thesis using assms(1,2) Pause onPath_store by auto
next
  case Resume
  have "getIntent (resume (store S)) a = getIntent (store S) a"
    by (simp add: resume_def getIntent_def)
  then show ?thesis using assms(1,2) Resume onPath_store by auto
next
  case (Watch i)
  show ?thesis
  proof (cases "watchHandler i (length (conns S)) t (store S) (streams S)")
    case None
    then show ?thesis using assms(1,2) Watch by simp
  next
    case (Some p)
    obtain ms' w' where p: "p = (ms', w')" by (cases p)
    have "getIntent ms' a = getIntent (store S) a"
      using Some p watch_frame by simp
    then have "onPath a n k (S\<lparr>store := ms', streams := w'\<rparr>)"
      using assms(1) by (rule onPath_store_streams[rotated])
    then have "onPath a n k (S\<lparr>store := ms', streams := w', conns := conns S @ [i]\<rparr>)"
      by (simp add: onPath_def)
    then show ?thesis using assms(2) Watch Some p by simp
  qed
next
  case (Abort c)
  have "getIntent (unsubscribe (conns S ! c) c (store S)) a = getIntent (store S) a"
    by (rule unsubscribe_frame)
  then show ?thesis
    using assms(1,2) Abort onPath_store by (auto split: if_splits)
qed

lemma exec_on_path:
  assumes "onPath a n k S" and "exec e S = Some S'" and "calm a n k (snd e)"
  shows "onPath a n (bump n (snd e) k) S'"
proof -
  obtain S'' where p: "perform (fst e) (snd e) S = Some S''" and S': "S' = S''\<lparr>clock := fst e\<rparr>"
    using assms(2) by (auto simp: exec_def split: if_splits)
  have "onPath a n (bump n (snd e) k) S''"
    using assms(1) p assms(3) by (rule perform_on_path)
  then show ?thesis by (simp add: S' onPath_clock)
qed

lemma replay_on_path:
  assumes "onPath a n k S" and "replay tr S = Some S'" and "undisturbed a n k tr"
  shows "onPath a n (fired n tr k) S'"
  using assms
proof (induction tr arbitrary: S k)
  case Nil
  then show ?case by simp
next
  case (Cons e tr)
  then obtain S1 where e: "exec e S = Some S1" and rest: "replay tr S1 = Some S'"
    by (auto split: option.splits)
  have "onPath a n (bump n (snd e) k) S1"
    using Cons.prems(1) e Cons.prems(3) by (auto intro: exec_on_path)
  then show ?case
    using Cons.IH[OF _ rest] Cons.prems(3) by simp
qed

lemma created_on_path:
  assumes "\<forall>t \<in> set (tasks S0). t_id t = a \<longrightarrow> \<not> t_live t"
    and "createdId i fresh = a" and "exec (t0, Create i fresh) S0 = Some S1"
  shows "onPath a (length (tasks S0)) 0 S1"
proof -
  let ?c = "createIntent i fresh t0 (store S0)"
  let ?new = "\<lparr>t_id = id' (snd ?c), t_stage = 0, t_wake = t0 + delay (stages ! 0), t_live = True\<rparr>"
  have S1: "S1 = S0\<lparr>store := fst ?c, tasks := tasks S0 @ [?new], clock := t0\<rparr>"
    using assms(3) by (auto simp: exec_def case_prod_unfold Let_def split: if_splits)
  have T: "tasks S1 = tasks S0 @ [?new]" and St: "store S1 = fst ?c"
    by (simp_all add: S1)
  have "getIntent (fst ?c) a = Some (snd ?c)"
    using assms(2) by (simp add: createIntent_def createdId_def Let_def getIntent_def)
  then have rec: "\<exists>rec. getIntent (store S1) a = Some rec \<and> progress 0 rec"
    using progress_created by (simp add: St)
  have others: "\<not> t_live (tasks S1 ! m)"
    if "m < length (tasks S1)" and "m \<noteq> length (tasks S0)" and "t_id (tasks S1 ! m) = a" for m
  proof -
    have m: "m < length (tasks S0)" using that(1,2) by (simp add: T)
    then have "tasks S1 ! m = tasks S0 ! m" by (simp add: T nth_append)
    moreover have "tasks S0 ! m \<in> set (tasks S0)" using m by simp
    ultimately show ?thesis using assms(1) that(3) by auto
  qed
  have new: "tasks S1 ! length (tasks S0) = ?new" by (simp add: T)
  show ?thesis
    unfolding onPath_def using rec others assms(2) by (simp add: new created_id T)
qed

lemma seenStates_full: "seenStates 6 = successPath"
  by (simp add: seenStates_def successPath_def)

lemma fire_enabled:
  assumes "onPath a n k S" and "k < 6" and "clock S \<le> t" and "t_wake (tasks S ! n) \<le> t"
  shows "exec (t, Fire n r) S \<noteq> None"
  using assms by (simp add: exec_def onPath_def Let_def case_prod_unfold)

text \<open>
  Claim C1, as the code has it. An intent is created under an id \<open>a\<close> for which no driver
  of an earlier intent is still running. Whatever happens at the server afterwards, as
  long as the intent is not cancelled, the server is not killed, no other intent is
  created under the id \<open>a\<close>, and no draw injects a failure into its driver: there are at
  most six firings of the driver's timer; the log of the intent records, in order, the
  states of the success path up to the stage reached, starting with \<open>PENDING\<close>, and the
  state of the record is the last of them; after the sixth firing the log records the
  whole path \<open>PENDING, VALIDATING, PLANNING, SIMULATING, SUBMITTING, CONFIRMING,
  VERIFYING, COMPLETED\<close>, the state is \<open>COMPLETED\<close> and the outcome has \<open>success = true\<close>;
  before that, the next timer of the driver can fire as soon as it is due.
\<close>

theorem success_path:
  assumes "\<forall>t \<in> set (tasks S0). t_id t = a \<longrightarrow> \<not> t_live t"
    and "createdId i fresh = a"
    and "exec (t0, Create i fresh) S0 = Some S1"
    and "replay tr S1 = Some S"
    and "undisturbed a (length (tasks S0)) 0 tr"
  shows "fired (length (tasks S0)) tr 0 \<le> 6
       \<and> (\<exists>rec. getIntent (store S) a = Some rec
              \<and> observed rec = map Some (seenStates (fired (length (tasks S0)) tr 0))
              \<and> state rec = last (seenStates (fired (length (tasks S0)) tr 0))
              \<and> (fired (length (tasks S0)) tr 0 = 6 \<longrightarrow>
                    observed rec = map Some successPath \<and> state rec = COMPLETED
                    \<and> map_option success (outcome rec) = Some True))
       \<and> (fired (length (tasks S0)) tr 0 < 6 \<longrightarrow>
            (\<forall>t r. clock S \<le> t \<and> t_wake (tasks S ! length (tasks S0)) \<le> t \<longrightarrow>
                   exec (t, Fire (length (tasks S0)) r) S \<noteq> None))"
proof -
  let ?n = "length (tasks S0)"
  let ?k = "fired ?n tr 0"
  have "onPath a ?n 0 S1"
    using assms(1,2,3) by (rule created_on_path)
  then have on: "onPath a ?n ?k S"
    using assms(4,5) by (rule replay_on_path)
  then obtain rec where rec: "getIntent (store S) a = Some rec" and p: "progress ?k rec"
    and k: "?k \<le> 6"
    by (auto simp: onPath_def)
  have full: "?k = 6 \<longrightarrow> observed rec = map Some successPath \<and> state rec = COMPLETED
                \<and> map_option success (outcome rec) = Some True"
    using p by (auto simp: progress_def seenStates_full successPath_def)
  have "observed rec = map Some (seenStates ?k)" and "state rec = last (seenStates ?k)"
    using p by (simp_all add: progress_def)
  then show ?thesis
    using k rec full fire_enabled[OF on] by auto
qed

lemma sixFires_undisturbed: "undisturbed ''a'' 0 0 sixFires \<and> fired 0 sixFires 0 = 6"
  by (simp add: sixFires_def stages_def)

theorem success_path_witness:
  "tasks boot = []
   \<and> createdId payload ''u'' = ''a''
   \<and> exec (0, Create payload ''u'') boot \<noteq> None
   \<and> replay sixFires (the (exec (0, Create payload ''u'') boot)) \<noteq> None
   \<and> undisturbed ''a'' (length (tasks boot)) 0 sixFires
   \<and> fired (length (tasks boot)) sixFires 0 = 6
   \<and> map_option observed
        (getIntent (store (the (replay sixFires (the (exec (0, Create payload ''u'') boot))))) ''a'')
       = Some (map Some successPath)
   \<and> map_option state
        (getIntent (store (the (replay sixFires (the (exec (0, Create payload ''u'') boot))))) ''a'')
       = Some COMPLETED"
proof -
  have h1: "\<forall>t \<in> set (tasks boot). t_id t = ''a'' \<longrightarrow> \<not> t_live t"
    by (simp add: boot_def)
  have h2: "createdId payload ''u'' = ''a''"
    by (simp add: createdId_def payload_def)
  have n: "length (tasks boot) = 0" by (simp add: boot_def)
  obtain S where S: "replay fullRun boot = Some S"
    using success_run by blast
  then obtain S1 where h3: "exec (0, Create payload ''u'') boot = Some S1"
    and h4: "replay sixFires S1 = Some S"
    by (auto simp: fullRun_def split: option.splits)
  have h5: "undisturbed ''a'' (length (tasks boot)) 0 sixFires"
    and f: "fired (length (tasks boot)) sixFires 0 = 6"
    using sixFires_undisturbed by (simp_all add: n)
  from success_path[OF h1 h2 h3 h4 h5] f
  obtain rec where "getIntent (store S) ''a'' = Some rec"
    and "observed rec = map Some successPath" and "state rec = COMPLETED"
    by auto
  moreover have "tasks boot = []" by (simp add: boot_def)
  ultimately show ?thesis
    using h2 h3 h4 h5 f by simp
qed

text \<open>The claim as the specification states it fails when an intent is created under the
  id of an intent whose driver is still running. The client submits the same intent
  twice; the second record is never cancelled or killed and no failure is injected, yet
  both drivers step it: its log records every stage twice, and after the first driver
  has completed it the second one takes it back to \<open>VERIFYING\<close> and completes it again.\<close>

theorem resubmitted_intent_leaves_path:
  "replay doubleRun boot \<noteq> None
   \<and> map_option observed (getIntent (store (the (replay doubleRun boot))) ''a'')
     = Some (map Some [PENDING, VALIDATING, VALIDATING, PLANNING, PLANNING, SIMULATING,
                       SIMULATING, SUBMITTING, SUBMITTING, CONFIRMING, CONFIRMING,
                       VERIFYING, COMPLETED, VERIFYING, COMPLETED])
   \<and> undisturbed ''a'' 1 0 (drop 2 doubleRun)"
  by code_simp

end
